theory Spec2Isabelle
  imports Complex_Main "HOL-Library.Word" "HOL-Library.Sublist"
begin

section \<open>JavaScript strings, values and errors\<close>

text \<open>
  A JavaScript string is a finite sequence of UTF-16 code units; \<open>length\<close>, \<open>slice\<close>,
  \<open>indexOf\<close> and indexing all count code units.  \<open>js\<close> embeds a literal written with
  Latin-1 characters; other code units are written as numbers (\<open>0x2014\<close> is the dash
  of the error message, \<open>0x5C\<close> the backslash).  A \<open>Uint8Array\<close> is a list of bytes.
\<close>

type_synonym code_unit = "16 word"

type_synonym jsstring = "code_unit list"

definition js :: "string \<Rightarrow> jsstring" where
  "js s = map of_char s"

type_synonym byte = "8 word"

type_synonym bytes = "byte list"

text \<open>
  The values \<open>JSON.parse\<close> and \<open>Response.json()\<close> can produce.  A Number is carried by
  its real value (both zeros are \<open>0\<close>; IEEE rounding is not modelled, the program never
  computes with a Number it has read).  An object is the list of its own properties in
  insertion order.  \<open>undefined\<close> is \<open>None\<close> of \<open>jsval option\<close>.
\<close>

datatype jsval =
    JNull
  | JBool bool
  | JNum real
  | JStr jsstring
  | JArr "jsval list"
  | JObj "(jsstring \<times> jsval) list"

text \<open>
  What a call can throw or a promise can reject with: \<open>Error msg\<close> is the program's own
  \<open>new Error(msg)\<close>, the others are raised by the platform (\<open>DOMException\<close> carries
  its name).  A computation that can fail returns \<open>error + 'a\<close>; \<open>bindE\<close> is
  sequencing (\<open>await\<close> of a promise that may reject), \<open>or_else\<close> goes on to the next
  statement when the previous one did not \<open>return\<close>.
\<close>

datatype error =
    Error jsstring
  | TypeError
  | SyntaxError
  | URIError
  | DOMException jsstring

definition bindE :: "'e + 'a \<Rightarrow> ('a \<Rightarrow> 'e + 'b) \<Rightarrow> 'e + 'b" where
  "bindE m f = (case m of Inl e \<Rightarrow> Inl e | Inr x \<Rightarrow> f x)"

definition or_else :: "'e + 'a option \<Rightarrow> 'e + 'a option \<Rightarrow> 'e + 'a option" where
  "or_else m n = (case m of Inl e \<Rightarrow> Inl e | Inr (Some v) \<Rightarrow> Inr (Some v) | Inr None \<Rightarrow> n)"

section \<open>Base64: the platform's btoa and atob\<close>

text \<open>
  \<open>btoa\<close> and \<open>atob\<close> belong to the platform.  They are modelled after their
  definition (HTML Standard: forgiving-base64 encode and decode of the Infra Standard):
  \<open>btoa\<close> throws on a code unit above \<open>0xFF\<close> and otherwise encodes three bytes as
  four characters of the alphabet \<open>A-Z a-z 0-9 + /\<close>, padding with \<open>=\<close>; \<open>atob\<close>
  removes ASCII whitespace, removes one or two trailing \<open>=\<close> when the length is a
  multiple of four, fails when the length is then \<open>1\<close> modulo \<open>4\<close> or a character is
  outside the alphabet, and decodes, dropping the bits of an incomplete last byte.
\<close>

definition b64char :: "nat \<Rightarrow> code_unit" where
  "b64char n =
     (if n < 26 then of_nat (0x41 + n)
      else if n < 52 then of_nat (0x61 + (n - 26))
      else if n < 62 then of_nat (0x30 + (n - 52))
      else if n = 62 then 0x2B
      else 0x2F)"

definition b64val :: "code_unit \<Rightarrow> nat option" where
  "b64val c =
     (if 0x41 \<le> c \<and> c \<le> 0x5A then Some (unat c - 0x41)
      else if 0x61 \<le> c \<and> c \<le> 0x7A then Some (unat c - 0x61 + 26)
      else if 0x30 \<le> c \<and> c \<le> 0x39 then Some (unat c - 0x30 + 52)
      else if c = 0x2B then Some 62
      else if c = 0x2F then Some 63
      else None)"

fun sextets :: "bytes \<Rightarrow> nat list" where
  "sextets (a # b # c # rest) =
     [unat a div 4, (unat a mod 4) * 16 + unat b div 16, (unat b mod 16) * 4 + unat c div 64, unat c mod 64]
     @ sextets rest"
| "sextets [a, b] = [unat a div 4, (unat a mod 4) * 16 + unat b div 16, (unat b mod 16) * 4]"
| "sextets [a] = [unat a div 4, (unat a mod 4) * 16]"
| "sextets [] = []"

definition b64_encode :: "bytes \<Rightarrow> jsstring" where
  "b64_encode bs = map b64char (sextets bs) @ replicate ((3 - length bs mod 3) mod 3) 0x3D"

definition btoa :: "jsstring \<Rightarrow> error + jsstring" where
  "btoa s =
     (if \<exists>c \<in> set s. 0xFF < c then Inl (DOMException (js ''InvalidCharacterError''))
      else Inr (b64_encode (map ucast s)))"

definition is_ascii_ws :: "code_unit \<Rightarrow> bool" where
  "is_ascii_ws c \<longleftrightarrow> c = 0x09 \<or> c = 0x0A \<or> c = 0x0C \<or> c = 0x0D \<or> c = 0x20"

definition strip_padding :: "jsstring \<Rightarrow> jsstring" where
  "strip_padding d =
     (if length d mod 4 = 0 then
        (if 2 \<le> length d \<and> drop (length d - 2) d = [0x3D, 0x3D] then take (length d - 2) d
         else if 1 \<le> length d \<and> drop (length d - 1) d = [0x3D] then take (length d - 1) d
         else d)
      else d)"

fun those_vals :: "code_unit list \<Rightarrow> nat list option" where
  "those_vals [] = Some []"
| "those_vals (c # cs) =
     (case b64val c of
        None \<Rightarrow> None
      | Some v \<Rightarrow> (case those_vals cs of None \<Rightarrow> None | Some vs \<Rightarrow> Some (v # vs)))"

fun unsextets :: "nat list \<Rightarrow> bytes" where
  "unsextets (a # b # c # d # rest) =
     [of_nat (a * 4 + b div 16), of_nat ((b mod 16) * 16 + c div 4), of_nat ((c mod 4) * 64 + d)]
     @ unsextets rest"
| "unsextets [a, b, c] = [of_nat (a * 4 + b div 16), of_nat ((b mod 16) * 16 + c div 4)]"
| "unsextets [a, b] = [of_nat (a * 4 + b div 16)]"
| "unsextets [a] = []"
| "unsextets [] = []"

definition atob :: "jsstring \<Rightarrow> error + jsstring" where
  "atob s =
     (let d = strip_padding (filter (\<lambda>c. \<not> is_ascii_ws c) s) in
      if length d mod 4 = 1 then Inl (DOMException (js ''InvalidCharacterError''))
      else
        (case those_vals d of
           None \<Rightarrow> Inl (DOMException (js ''InvalidCharacterError''))
         | Some vs \<Rightarrow> Inr (map ucast (unsextets vs))))"

section \<open>base64Encode and base64Decode (popup.js, lines 20-37)\<close>

text \<open>
  \<open>chunk_loop\<close> is the \<open>while\<close> loop of lines 24-28, with \<open>idx\<close> and \<open>result\<close> as
  arguments: each round appends \<open>String.fromCharCode\<close> of the next \<open>CHUNK\<close> bytes.
  \<open>base64Decode\<close> stores \<open>charCodeAt(i)\<close> of every character of \<open>atob(b64)\<close> in a
  \<open>Uint8Array\<close>, which keeps the low eight bits.
\<close>

definition CHUNK :: nat where
  "CHUNK = 0x8000"

definition subarray :: "bytes \<Rightarrow> nat \<Rightarrow> nat \<Rightarrow> bytes" where
  "subarray u8 a b = take (b - a) (drop a u8)"

definition fromCharCode :: "bytes \<Rightarrow> jsstring" where
  "fromCharCode codes = map ucast codes"

function chunk_loop :: "bytes \<Rightarrow> nat \<Rightarrow> jsstring \<Rightarrow> jsstring" where
  "chunk_loop u8 idx result =
     (if idx < length u8
      then chunk_loop u8 (idx + CHUNK)
             (result @ fromCharCode (subarray u8 idx (min (idx + CHUNK) (length u8))))
      else result)"
  by pat_completeness auto

termination
  by (relation "measure (\<lambda>(u8, idx, result). length u8 - idx)") (auto simp: CHUNK_def)

declare chunk_loop.simps [simp del]

definition base64Encode :: "bytes \<Rightarrow> error + jsstring" where
  "base64Encode u8 = btoa (chunk_loop u8 0 [])"

definition base64Decode :: "jsstring \<Rightarrow> error + bytes" where
  "base64Decode b64 = (case atob b64 of Inl e \<Rightarrow> Inl e | Inr binary \<Rightarrow> Inr (map ucast binary))"

section \<open>TextEncoder and TextDecoder\<close>

text \<open>
  \<open>new TextEncoder().encode(s)\<close> and \<open>new TextDecoder().decode(bytes)\<close> belong to the
  platform (Encoding Standard).  The encoder first turns the string into scalar values:
  a high surrogate followed by a low surrogate is one supplementary code point, any
  other surrogate becomes \<open>U+FFFD\<close>; then it writes each scalar value in UTF-8.
\<close>

definition is_high_surrogate :: "code_unit \<Rightarrow> bool" where
  "is_high_surrogate c \<longleftrightarrow> 0xD800 \<le> c \<and> c \<le> 0xDBFF"

definition is_low_surrogate :: "code_unit \<Rightarrow> bool" where
  "is_low_surrogate c \<longleftrightarrow> 0xDC00 \<le> c \<and> c \<le> 0xDFFF"

definition lone :: "code_unit \<Rightarrow> nat" where
  "lone c = (if is_high_surrogate c \<or> is_low_surrogate c then 0xFFFD else unat c)"

fun to_scalars :: "jsstring \<Rightarrow> nat list" where
  "to_scalars [] = []"
| "to_scalars [c] = [lone c]"
| "to_scalars (c # d # rest) =
     (if is_high_surrogate c \<and> is_low_surrogate d
      then (0x10000 + (unat c - 0xD800) * 0x400 + (unat d - 0xDC00)) # to_scalars rest
      else lone c # to_scalars (d # rest))"

definition utf8_bytes :: "nat \<Rightarrow> bytes" where
  "utf8_bytes cp =
     (if cp < 0x80 then [of_nat cp]
      else if cp < 0x800 then [of_nat (0xC0 + cp div 0x40), of_nat (0x80 + cp mod 0x40)]
      else if cp < 0x10000 then
        [of_nat (0xE0 + cp div 0x1000), of_nat (0x80 + cp div 0x40 mod 0x40), of_nat (0x80 + cp mod 0x40)]
      else
        [of_nat (0xF0 + cp div 0x40000), of_nat (0x80 + cp div 0x1000 mod 0x40),
         of_nat (0x80 + cp div 0x40 mod 0x40), of_nat (0x80 + cp mod 0x40)])"

definition TextEncoder_encode :: "jsstring \<Rightarrow> bytes" where
  "TextEncoder_encode s = concat (map utf8_bytes (to_scalars s))"

text \<open>
  The decoder is the UTF-8 decoder of the Encoding Standard with its five variables, in
  the replacement error mode (\<open>fatal\<close> is false by default): an error emits \<open>U+FFFD\<close>,
  and a byte that cannot continue a sequence is read again as a first byte.
  \<open>decode\<close> without \<open>ignoreBOM\<close> first removes a leading byte order mark
  \<open>EF BB BF\<close>.  The scalar values are written back as UTF-16 code units.
\<close>

record decoder =
  code_point :: nat
  bytes_seen :: nat
  bytes_needed :: nat
  lower_boundary :: nat
  upper_boundary :: nat

definition decoder_init :: decoder where
  "decoder_init = \<lparr>code_point = 0, bytes_seen = 0, bytes_needed = 0,
     lower_boundary = 0x80, upper_boundary = 0xBF\<rparr>"

definition lead_byte :: "nat \<Rightarrow> nat list \<times> decoder" where
  "lead_byte b =
     (if b \<le> 0x7F then ([b], decoder_init)
      else if 0xC2 \<le> b \<and> b \<le> 0xDF then
        ([], decoder_init\<lparr>bytes_needed := 1, code_point := b - 0xC0\<rparr>)
      else if 0xE0 \<le> b \<and> b \<le> 0xEF then
        ([], decoder_init\<lparr>bytes_needed := 2, code_point := b - 0xE0,
              lower_boundary := (if b = 0xE0 then 0xA0 else 0x80),
              upper_boundary := (if b = 0xED then 0x9F else 0xBF)\<rparr>)
      else if 0xF0 \<le> b \<and> b \<le> 0xF4 then
        ([], decoder_init\<lparr>bytes_needed := 3, code_point := b - 0xF0,
              lower_boundary := (if b = 0xF0 then 0x90 else 0x80),
              upper_boundary := (if b = 0xF4 then 0x8F else 0xBF)\<rparr>)
      else ([0xFFFD], decoder_init))"

definition decoder_step :: "decoder \<Rightarrow> nat \<Rightarrow> nat list \<times> decoder" where
  "decoder_step st b =
     (if bytes_needed st = 0 then lead_byte b
      else if b < lower_boundary st \<or> upper_boundary st < b then
        (case lead_byte b of (out, st1) \<Rightarrow> (0xFFFD # out, st1))
      else
        (let cp = code_point st * 0x40 + (b - 0x80) in
         if bytes_seen st + 1 = bytes_needed st then ([cp], decoder_init)
         else ([], st\<lparr>code_point := cp, bytes_seen := bytes_seen st + 1,
                      lower_boundary := 0x80, upper_boundary := 0xBF\<rparr>)))"

fun decoder_run :: "decoder \<Rightarrow> bytes \<Rightarrow> nat list" where
  "decoder_run st [] = (if bytes_needed st \<noteq> 0 then [0xFFFD] else [])"
| "decoder_run st (b # bs) = (case decoder_step st (unat b) of (out, st1) \<Rightarrow> out @ decoder_run st1 bs)"

definition strip_bom :: "bytes \<Rightarrow> bytes" where
  "strip_bom bs = (if take 3 bs = [0xEF, 0xBB, 0xBF] then drop 3 bs else bs)"

definition from_scalar :: "nat \<Rightarrow> jsstring" where
  "from_scalar cp =
     (if cp < 0x10000 then [of_nat cp]
      else [of_nat (0xD800 + (cp - 0x10000) div 0x400), of_nat (0xDC00 + (cp - 0x10000) mod 0x400)])"

definition TextDecoder_decode :: "bytes \<Rightarrow> jsstring" where
  "TextDecoder_decode bs = concat (map from_scalar (decoder_run decoder_init (strip_bom bs)))"

section \<open>Web Crypto\<close>

text \<open>
  \<open>crypto.subtle\<close> and \<open>crypto.getRandomValues\<close> belong to the platform and are
  parameters of the model: a record of the four \<open>subtle\<close> functions the program calls,
  each with the arguments the program passes and a result that may be a rejection, and
  of the generator that yields the next random byte.  \<open>'pk\<close> and \<open>'k\<close> are the
  \<open>CryptoKey\<close> objects of \<open>importKey\<close> and \<open>deriveKey\<close>.  The dictionaries passed as
  algorithm parameters are records with the fields the program sets.
\<close>

record pbkdf2_params =
  kdf_name :: jsstring
  kdf_salt :: bytes
  kdf_iterations :: nat
  kdf_hash :: jsstring

record aes_key_params =
  key_alg_name :: jsstring
  key_length :: nat

record aes_gcm_params =
  gcm_name :: jsstring
  gcm_iv :: bytes

record ('pk, 'k, 'g) crypto =
  importKey :: "jsstring \<Rightarrow> bytes \<Rightarrow> jsstring \<Rightarrow> bool \<Rightarrow> jsstring list \<Rightarrow> error + 'pk"
  deriveKey :: "pbkdf2_params \<Rightarrow> 'pk \<Rightarrow> aes_key_params \<Rightarrow> bool \<Rightarrow> jsstring list \<Rightarrow> error + 'k"
  encrypt :: "aes_gcm_params \<Rightarrow> 'k \<Rightarrow> bytes \<Rightarrow> error + bytes"
  decrypt :: "aes_gcm_params \<Rightarrow> 'k \<Rightarrow> bytes \<Rightarrow> error + bytes"
  random_byte :: "'g \<Rightarrow> byte \<times> 'g"

text \<open>
  \<open>crypto.getRandomValues(new Uint8Array(n))\<close> fills an array of \<open>n\<close> bytes from the
  generator, whose state is threaded through.
\<close>

fun getRandomValues :: "('g \<Rightarrow> byte \<times> 'g) \<Rightarrow> nat \<Rightarrow> 'g \<Rightarrow> bytes \<times> 'g" where
  "getRandomValues gen 0 g = ([], g)"
| "getRandomValues gen (Suc n) g =
     (case gen g of (b, g1) \<Rightarrow> (case getRandomValues gen n g1 of (bs, g2) \<Rightarrow> (b # bs, g2)))"

section \<open>deriveKeyFromPassphrase, encryptApiKey, decryptApiKey (popup.js, lines 40-78)\<close>

text \<open>
  The stored object \<open>{ ciphertext, iv, salt }\<close> is the record \<open>encrypted\<close> of three
  Base64 strings.  \<open>encryptApiKey\<close> also returns the generator after its two draws.
\<close>

definition deriveKeyFromPassphrase :: "('pk, 'k, 'g) crypto \<Rightarrow> jsstring \<Rightarrow> bytes \<Rightarrow> error + 'k" where
  "deriveKeyFromPassphrase cr passphrase saltUint8 =
     bindE (importKey cr (js ''raw'') (TextEncoder_encode passphrase) (js ''PBKDF2'') False [js ''deriveKey''])
       (\<lambda>passKey.
          deriveKey cr
            \<lparr>kdf_name = js ''PBKDF2'', kdf_salt = saltUint8, kdf_iterations = 200000,
             kdf_hash = js ''SHA-256''\<rparr>
            passKey
            \<lparr>key_alg_name = js ''AES-GCM'', key_length = 256\<rparr>
            False
            [js ''encrypt'', js ''decrypt''])"

record encrypted =
  ciphertext :: jsstring
  iv :: jsstring
  salt :: jsstring

definition encryptApiKey :: "('pk, 'k, 'g) crypto \<Rightarrow> jsstring \<Rightarrow> jsstring \<Rightarrow> 'g \<Rightarrow> (error + encrypted) \<times> 'g" where
  "encryptApiKey cr apiKeyPlain passphrase g =
     (case getRandomValues (random_byte cr) 16 g of
        (salt_bytes, g1) \<Rightarrow>
          (case getRandomValues (random_byte cr) 12 g1 of
             (iv_bytes, g2) \<Rightarrow>
               (bindE (deriveKeyFromPassphrase cr passphrase salt_bytes)
                  (\<lambda>key.
                     bindE (encrypt cr \<lparr>gcm_name = js ''AES-GCM'', gcm_iv = iv_bytes\<rparr> key
                              (TextEncoder_encode apiKeyPlain))
                       (\<lambda>cipherBuffer.
                          bindE (base64Encode cipherBuffer)
                            (\<lambda>c. bindE (base64Encode iv_bytes)
                               (\<lambda>i. bindE (base64Encode salt_bytes)
                                  (\<lambda>s. Inr \<lparr>ciphertext = c, iv = i, salt = s\<rparr>))))),
                g2)))"

definition decryptApiKey :: "('pk, 'k, 'g) crypto \<Rightarrow> encrypted \<Rightarrow> jsstring \<Rightarrow> error + jsstring" where
  "decryptApiKey cr encryptedObj passphrase =
     bindE (base64Decode (salt encryptedObj))
       (\<lambda>salt_bytes.
          bindE (base64Decode (iv encryptedObj))
            (\<lambda>iv_bytes.
               bindE (base64Decode (ciphertext encryptedObj))
                 (\<lambda>cipher.
                    bindE (deriveKeyFromPassphrase cr passphrase salt_bytes)
                      (\<lambda>key.
                         bindE (decrypt cr \<lparr>gcm_name = js ''AES-GCM'', gcm_iv = iv_bytes\<rparr> key cipher)
                           (\<lambda>plainBuffer. Inr (TextDecoder_decode plainBuffer))))))"

section \<open>Reading properties of a JSON value\<close>

text \<open>
  \<open>truthy\<close> is \<open>ToBoolean\<close>, \<open>is_string x\<close> is \<open>typeof x === 'string'\<close>.
  \<open>get_prop v k\<close> is the property read \<open>v[k]\<close> on a value that is neither \<open>null\<close> nor
  \<open>undefined\<close>, for the names the program reads (\<open>candidates\<close>, \<open>content\<close>,
  \<open>parts\<close>, \<open>text\<close>, \<open>output\<close>, \<open>length\<close> and the index \<open>0\<close>): an object gives
  its own property, an array and a string give their \<open>length\<close> and first element, a
  number and a boolean give \<open>undefined\<close>.  \<open>opt_get\<close> is \<open>x?.k\<close>, \<open>dot_get\<close> is
  \<open>x.k\<close>, which throws a \<open>TypeError\<close> on \<open>null\<close> and \<open>undefined\<close>; \<open>opt_path\<close> and
  \<open>dot_path\<close> follow a chain of such reads.
\<close>

definition truthy :: "jsval option \<Rightarrow> bool" where
  "truthy x =
     (case x of
        None \<Rightarrow> False
      | Some JNull \<Rightarrow> False
      | Some (JBool b) \<Rightarrow> b
      | Some (JNum r) \<Rightarrow> r \<noteq> 0
      | Some (JStr s) \<Rightarrow> s \<noteq> []
      | Some (JArr xs) \<Rightarrow> True
      | Some (JObj ms) \<Rightarrow> True)"

definition is_string :: "jsval option \<Rightarrow> bool" where
  "is_string x = (case x of Some (JStr s) \<Rightarrow> True | _ \<Rightarrow> False)"

definition get_prop :: "jsval \<Rightarrow> jsstring \<Rightarrow> jsval option" where
  "get_prop v k =
     (case v of
        JObj ms \<Rightarrow> map_of ms k
      | JArr xs \<Rightarrow>
          if k = js ''length'' then Some (JNum (real (length xs)))
          else if k = js ''0'' then (case xs of [] \<Rightarrow> None | x # _ \<Rightarrow> Some x)
          else None
      | JStr s \<Rightarrow>
          if k = js ''length'' then Some (JNum (real (length s)))
          else if k = js ''0'' then (case s of [] \<Rightarrow> None | c # _ \<Rightarrow> Some (JStr [c]))
          else None
      | _ \<Rightarrow> None)"

definition opt_get :: "jsval option \<Rightarrow> jsstring \<Rightarrow> jsval option" where
  "opt_get x k = (case x of None \<Rightarrow> None | Some JNull \<Rightarrow> None | Some v \<Rightarrow> get_prop v k)"

definition dot_get :: "jsval option \<Rightarrow> jsstring \<Rightarrow> error + jsval option" where
  "dot_get x k =
     (case x of None \<Rightarrow> Inl TypeError | Some JNull \<Rightarrow> Inl TypeError | Some v \<Rightarrow> Inr (get_prop v k))"

fun opt_path :: "jsval option \<Rightarrow> jsstring list \<Rightarrow> jsval option" where
  "opt_path x [] = x"
| "opt_path x (k # ks) = opt_path (opt_get x k) ks"

fun dot_path :: "jsval option \<Rightarrow> jsstring list \<Rightarrow> error + jsval option" where
  "dot_path x [] = Inr x"
| "dot_path x (k # ks) = (case dot_get x k of Inl e \<Rightarrow> Inl e | Inr y \<Rightarrow> dot_path y ks)"

section \<open>extractTextFromApiResponse (popup.js, lines 132-146)\<close>

text \<open>
  One definition for each \<open>if\<close> of the \<open>try\<close> block: \<open>Inr (Some v)\<close> when the line
  returns \<open>v\<close>, \<open>Inr None\<close> when its condition is false, \<open>Inl e\<close> when evaluating it
  throws.  \<open>cand\<close> is \<open>json.candidates[0]\<close>.  The \<open>catch\<close> of line 144 swallows the
  exception, and line 145 returns \<open>null\<close> (\<open>None\<close>).
\<close>

definition line137 :: "jsval option \<Rightarrow> error + jsval option" where
  "line137 cand =
     (if truthy (opt_path cand [js ''content'', js ''parts'', js ''length''])
      then bindE (dot_path cand [js ''content'', js ''parts'', js ''0'', js ''text''])
             (\<lambda>t. if is_string t then Inr t else Inr None)
      else Inr None)"

definition line138 :: "jsval option \<Rightarrow> error + jsval option" where
  "line138 cand =
     (if truthy (opt_path cand [js ''content'', js ''length''])
      then bindE (dot_path cand [js ''content'', js ''0'', js ''parts''])
             (\<lambda>parts.
                if truthy (opt_get parts (js ''length''))
                then bindE (dot_path cand [js ''content'', js ''0'', js ''parts'', js ''0'', js ''text''])
                       (\<lambda>t. if is_string t then Inr t else Inr None)
                else Inr None)
      else Inr None)"

definition line139 :: "jsval option \<Rightarrow> error + jsval option" where
  "line139 cand =
     (if truthy (opt_path cand [js ''output'', js ''0'', js ''content'', js ''0'', js ''text''])
      then dot_path cand [js ''output'', js ''0'', js ''content'', js ''0'', js ''text'']
      else Inr None)"

definition line140 :: "jsval option \<Rightarrow> error + jsval option" where
  "line140 cand =
     (if is_string (opt_get cand (js ''text'')) then dot_get cand (js ''text'') else Inr None)"

definition line143 :: "jsval \<Rightarrow> error + jsval option" where
  "line143 json =
     (if truthy (opt_path (Some json) [js ''output'', js ''0'', js ''content'', js ''0'', js ''text''])
      then dot_path (Some json) [js ''output'', js ''0'', js ''content'', js ''0'', js ''text'']
      else Inr None)"

definition try_block :: "jsval \<Rightarrow> error + jsval option" where
  "try_block json =
     or_else
       (if truthy (opt_path (Some json) [js ''candidates'', js ''length''])
        then bindE (dot_path (Some json) [js ''candidates'', js ''0''])
               (\<lambda>cand. or_else (line137 cand) (or_else (line138 cand) (or_else (line139 cand) (line140 cand))))
        else Inr None)
       (line143 json)"

definition extractTextFromApiResponse :: "jsval \<Rightarrow> jsval option" where
  "extractTextFromApiResponse json = (case try_block json of Inl e \<Rightarrow> None | Inr r \<Rightarrow> r)"

section \<open>extractFirstJson (popup.js, lines 149-178)\<close>

text \<open>
  The literal the scanner compares a character with at line 159 is written
  \<^verbatim>\<open>'\\\\'\<close> in the source: a string of two backslashes.
\<close>

definition backslash_literal :: jsstring where
  "backslash_literal = [0x5C, 0x5C]"

text \<open>
  The \<open>for\<close> loop of lines 156-176.  \<open>seen\<close> is \<open>text.slice(start, i)\<close>, the head of the
  third argument is \<open>ch = text[i]\<close>, so \<open>seen @ [ch]\<close> is the candidate
  \<open>text.slice(start, i + 1)\<close>.  \<open>parse\<close> is the platform's \<open>JSON.parse\<close>, \<open>None\<close> when it
  throws (the \<open>catch\<close> of line 170 swallows the exception and the loop goes on).
\<close>

fun scan :: "(jsstring \<Rightarrow> jsval option) \<Rightarrow> jsstring \<Rightarrow> jsstring \<Rightarrow> int \<Rightarrow> bool \<Rightarrow> bool
    \<Rightarrow> (jsstring \<times> jsval) option" where
  "scan parse seen [] depth inString escape = None"
| "scan parse seen (ch # rest) depth inString escape =
    (if escape then scan parse (seen @ [ch]) rest depth inString False
     else if [ch] = backslash_literal then scan parse (seen @ [ch]) rest depth inString True
     else if [ch] = js ''\"'' then scan parse (seen @ [ch]) rest depth (\<not> inString) escape
     else if inString then scan parse (seen @ [ch]) rest depth inString escape
     else
       (let depth1 = (if [ch] = js ''{'' then depth + 1 else depth) in
        if [ch] = js ''}'' then
          (let depth2 = depth1 - 1 in
           if depth2 = 0 then
             (case parse (seen @ [ch]) of
                Some parsed \<Rightarrow> Some (seen @ [ch], parsed)
              | None \<Rightarrow> scan parse (seen @ [ch]) rest depth2 inString escape)
           else scan parse (seen @ [ch]) rest depth2 inString escape)
        else scan parse (seen @ [ch]) rest depth1 inString escape))"

text \<open>
  \<open>from_first_brace s\<close> is \<open>s.slice(s.indexOf('{'))\<close>, and \<open>[]\<close> when \<open>indexOf\<close> is \<open>-1\<close>.
\<close>

definition from_first_brace :: "jsstring \<Rightarrow> jsstring" where
  "from_first_brace s = dropWhile (\<lambda>c. [c] \<noteq> js ''{'') s"

text \<open>
  The result \<open>{ text: candidate, parsed }\<close> is the pair \<open>(candidate, parsed)\<close>; \<open>null\<close> is
  \<open>None\<close>.  Line 150 returns \<open>null\<close> for the empty string and for every value that is not
  a string.
\<close>

definition extractFirstJson :: "(jsstring \<Rightarrow> jsval option) \<Rightarrow> jsval \<Rightarrow> (jsstring \<times> jsval) option" where
  "extractFirstJson parse t =
     (case t of
        JStr s \<Rightarrow>
          if s = [] then None
          else if from_first_brace s = [] then None
          else scan parse [] (from_first_brace s) 0 False False
      | _ \<Rightarrow> None)"

section \<open>The network and the rest of the platform\<close>

text \<open>
  A request is what line 184 passes to \<open>fetch\<close>; a response holds what the program reads
  of it: \<open>ok\<close>, \<open>status\<close>, \<open>statusText\<close>, the result of \<open>text()\<close> (\<open>None\<close> when that
  promise rejects) and the result of \<open>json()\<close>.

  The platform functions of the pipeline are parameters: \<open>JSON.parse\<close> (\<open>None\<close> when it
  throws), \<open>JSON.stringify\<close>, the conversions \<open>ToString\<close> and \<open>ToNumber\<close> applied to a
  value that is not a string (\<open>None\<close> is \<open>NaN\<close>), \<open>encodeURIComponent\<close> (\<open>None\<close> when
  it throws a \<open>URIError\<close>) and \<open>fetch\<close>, which answers a request in a state \<open>'w\<close> of the
  world and changes it.

  The state the pipeline threads through is the world together with the exchanges so
  far, oldest first: every request sent, with what \<open>fetch\<close> answered.
\<close>

record http_request =
  req_url :: jsstring
  req_method :: jsstring
  req_headers :: "(jsstring \<times> jsstring) list"
  req_body :: jsstring

record http_response =
  ok :: bool
  status :: nat
  statusText :: jsstring
  res_text :: "jsstring option"
  res_json :: "error + jsval"

record 'w platform =
  JSON_parse :: "jsstring \<Rightarrow> jsval option"
  JSON_stringify :: "jsval \<Rightarrow> jsstring"
  ToString :: "jsval \<Rightarrow> jsstring"
  ToNumber :: "jsval \<Rightarrow> real option"
  encodeURIComponent :: "jsstring \<Rightarrow> jsstring option"
  fetch :: "http_request \<Rightarrow> 'w \<Rightarrow> (error + http_response) \<times> 'w"

record 'w net =
  world :: 'w
  exchanges :: "(http_request \<times> (error + http_response)) list"

definition do_fetch :: "'w platform \<Rightarrow> http_request \<Rightarrow> 'w net \<Rightarrow> (error + http_response) \<times> 'w net" where
  "do_fetch pl req st =
     (case fetch pl req (world st) of
        (r, w) \<Rightarrow> (r, \<lparr>world = w, exchanges = exchanges st @ [(req, r)]\<rparr>))"

section \<open>callGemini (popup.js, lines 181-197)\<close>

text \<open>
  \<open>decimal n\<close> is the text of the template substitution \<open>${res.status}\<close>.
  \<open>gemini_request\<close> is the URL of line 182 and the options of lines 184-188;
  \<open>http_error_message\<close> is the message of line 191.  The result \<open>{ text, rawJson }\<close> is
  the pair \<open>(text, rawJson)\<close>.
\<close>

definition API_BASE :: jsstring where
  "API_BASE = js ''https://generativelanguage.googleapis.com/v1beta/models''"

definition DEFAULT_MODEL :: jsstring where
  "DEFAULT_MODEL = js ''gemini-2.0-flash''"

fun decimal :: "nat \<Rightarrow> jsstring" where
  "decimal n = (if n < 10 then [of_nat (48 + n)] else decimal (n div 10) @ [of_nat (48 + n mod 10)])"

declare decimal.simps [simp del]

definition gemini_request :: "'w platform \<Rightarrow> jsstring \<Rightarrow> jsstring \<Rightarrow> jsstring \<Rightarrow> error + http_request" where
  "gemini_request pl promptText model apiKey =
     (case encodeURIComponent pl model of
        None \<Rightarrow> Inl URIError
      | Some m \<Rightarrow>
          (case encodeURIComponent pl apiKey of
             None \<Rightarrow> Inl URIError
           | Some k \<Rightarrow>
               Inr \<lparr>req_url = API_BASE @ js ''/'' @ m @ js '':generateContent?key='' @ k,
                    req_method = js ''POST'',
                    req_headers = [(js ''Content-Type'', js ''application/json'')],
                    req_body = JSON_stringify pl
                      (JObj [(js ''contents'',
                         JArr [JObj [(js ''parts'', JArr [JObj [(js ''text'', JStr promptText)]])]])])\<rparr>))"

definition http_error_message :: "http_response \<Rightarrow> jsstring" where
  "http_error_message res =
     js ''Gemini HTTP '' @ decimal (status res) @ js '' '' @ statusText res @
     (case res_text res of
        None \<Rightarrow> []
      | Some t \<Rightarrow> if t \<noteq> [] then js '' '' @ [0x2014] @ js '' '' @ take 400 t else [])"

definition callGemini :: "'w platform \<Rightarrow> jsstring \<Rightarrow> jsstring \<Rightarrow> jsstring \<Rightarrow> 'w net
    \<Rightarrow> (error + jsval \<times> jsval) \<times> 'w net" where
  "callGemini pl promptText model apiKey st =
     (case gemini_request pl promptText model apiKey of
        Inl e \<Rightarrow> (Inl e, st)
      | Inr req \<Rightarrow>
          (case do_fetch pl req st of
             (Inl e, st1) \<Rightarrow> (Inl e, st1)
           | (Inr res, st1) \<Rightarrow>
               if \<not> ok res then (Inl (Error (http_error_message res)), st1)
               else
                 (case res_json res of
                    Inl e \<Rightarrow> (Inl e, st1)
                  | Inr json \<Rightarrow>
                      (Inr (case extractTextFromApiResponse json of
                              Some t \<Rightarrow> t
                            | None \<Rightarrow> JStr (JSON_stringify pl json),
                            json), st1))))"

section \<open>fetchRestaurantSuggestions (popup.js, lines 200-256)\<close>

text \<open>
  The three prompts, character by character.  \<open>rawSnippet\<close> is line 233 followed by the
  substitution \<open>${rawSnippet}\<close> of line 237.  \<open>attempt1.text\<close> is a string unless line 139
  or 143 returned another truthy value; then \<open>text.length\<close> is read as a property, an
  array longer than 8000 is sliced and converted, and a value with a \<open>length\<close> above
  8000 and no \<open>slice\<close> method makes line 233 throw.
\<close>

definition NL :: jsstring where
  "NL = [0x0A]"

definition basePrompt :: "jsstring \<Rightarrow> jsstring \<Rightarrow> jsstring" where
  "basePrompt city food =
     js ''Return STRICT JSON ONLY '' @ [0x2014] @ js '' nothing else. Structure must match EXACTLY:'' @ NL @
     NL @
     js ''{'' @ NL @
     js ''  \"foodDescription\": \"short description (1-2 sentences)\",'' @ NL @
     js ''  \"restaurants\": ['' @ NL @
     js ''    {'' @ NL @
     js ''      \"name\": \"restaurant name\",'' @ NL @
     js ''      \"address\": \"address string\",'' @ NL @
     js ''      \"googleMap\": \"https://maps.google.com/....\",'' @ NL @
     js ''      \"reasons\": [\"reason1\",\"reason2\",\"reason3\",\"reason4\"]'' @ NL @
     js ''    },'' @ NL @
     js ''    {'' @ NL @
     js ''      \"name\": \"restaurant name\",'' @ NL @
     js ''      \"address\": \"address string\",'' @ NL @
     js ''      \"googleMap\": \"https://maps.google.com/....\",'' @ NL @
     js ''      \"reasons\": [\"reason1\",\"reason2\",\"reason3\",\"reason4\"]'' @ NL @
     js ''    }'' @ NL @
     js ''  ]'' @ NL @
     js ''}'' @ NL @
     NL @
     js ''Now: Provide the best two restaurants in '' @ city @ js '' for the food item \"'' @ food @
     js ''\". Keep each reason <= 12 words. Keep addresses concise. Do NOT include any explanatory text or extra fields.''"

definition greater_8000 :: "'w platform \<Rightarrow> jsval option \<Rightarrow> bool" where
  "greater_8000 pl x =
     (case x of
        None \<Rightarrow> False
      | Some (JNum r) \<Rightarrow> r > 8000
      | Some v \<Rightarrow> (case ToNumber pl v of None \<Rightarrow> False | Some r \<Rightarrow> r > 8000))"

definition rawSnippet :: "'w platform \<Rightarrow> jsval \<Rightarrow> error + jsstring" where
  "rawSnippet pl t =
     (case t of
        JNull \<Rightarrow> Inl TypeError
      | JStr s \<Rightarrow> Inr (if length s > 8000 then take 8000 s @ js ''...[truncated]'' else s)
      | JArr xs \<Rightarrow>
          Inr (if length xs > 8000 then ToString pl (JArr (take 8000 xs)) @ js ''...[truncated]''
               else ToString pl t)
      | _ \<Rightarrow> if greater_8000 pl (get_prop t (js ''length'')) then Inl TypeError else Inr (ToString pl t))"

definition reformatPrompt :: "jsstring \<Rightarrow> jsstring" where
  "reformatPrompt snippet =
     js ''The previous response (not valid JSON) is below. Reformat it into VALID JSON matching the exact schema and nothing else (no commentary):'' @ NL @
     NL @
     js ''-----BEGIN PREVIOUS RESPONSE-----'' @ NL @
     snippet @ NL @
     js ''-----END PREVIOUS RESPONSE-----''"

definition strictPrompt :: "jsstring \<Rightarrow> jsstring \<Rightarrow> jsstring" where
  "strictPrompt city food =
     js ''Produce ONLY valid JSON with schema:'' @ NL @
     js ''{\"foodDescription\":\"string\",\"restaurants\":[{\"name\":\"string\",\"address\":\"string\",\"googleMap\":\"string\",\"reasons\":[\"s\",\"s\",\"s\",\"s\"]},{\"name\":\"string\",\"address\":\"string\",\"googleMap\":\"string\",\"reasons\":[\"s\",\"s\",\"s\",\"s\"]}]}'' @ NL @
     js ''Now provide values for city: '' @ city @ js '' and food: '' @ food @ js ''.''"

text \<open>
  \<open>raw_fallback t\<close> is the object \<open>{ __raw: t }\<close> of line 255.
\<close>

definition raw_fallback :: "jsval \<Rightarrow> jsval" where
  "raw_fallback t = JObj [(js ''__raw'', t)]"

definition fetchRestaurantSuggestions :: "'w platform \<Rightarrow> jsstring \<Rightarrow> jsstring \<Rightarrow> jsstring \<Rightarrow> jsstring
    \<Rightarrow> 'w net \<Rightarrow> (error + jsval) \<times> 'w net" where
  "fetchRestaurantSuggestions pl city food model apiKey st =
     (case callGemini pl (basePrompt city food) model apiKey st of
        (Inl e, st1) \<Rightarrow> (Inl e, st1)
      | (Inr attempt1, st1) \<Rightarrow>
          (case extractFirstJson (JSON_parse pl) (fst attempt1) of
             Some extracted \<Rightarrow> (Inr (snd extracted), st1)
           | None \<Rightarrow>
               (case rawSnippet pl (fst attempt1) of
                  Inl e \<Rightarrow> (Inl e, st1)
                | Inr snippet \<Rightarrow>
                    (case callGemini pl (reformatPrompt snippet) model apiKey st1 of
                       (Inl e, st2) \<Rightarrow> (Inl e, st2)
                     | (Inr attempt2, st2) \<Rightarrow>
                         (case extractFirstJson (JSON_parse pl) (fst attempt2) of
                            Some extracted \<Rightarrow> (Inr (snd extracted), st2)
                          | None \<Rightarrow>
                              (case callGemini pl (strictPrompt city food) model apiKey st2 of
                                 (Inl e, st3) \<Rightarrow> (Inl e, st3)
                               | (Inr attempt3, st3) \<Rightarrow>
                                   (case extractFirstJson (JSON_parse pl) (fst attempt3) of
                                      Some extracted \<Rightarrow> (Inr (snd extracted), st3)
                                    | None \<Rightarrow> (Inr (raw_fallback (fst attempt1)), st3))))))))"

section \<open>Reference instances of the platform\<close>

subsection \<open>A JSON parser\<close>

text \<open>
  \<open>JSON.parse\<close> is an argument of \<open>extractFirstJson\<close>, and the general results below
  hold for every such function.  The concrete instances use \<open>json_parse\<close>, a parser for
  the JSON grammar (ECMA-404): a tokenizer and a pushdown recogniser that builds the
  value.  \<open>num\<close> turns the text of a valid number into its value.  A repeated key keeps
  its first position and its last value, as in JavaScript.
\<close>

datatype token =
    TLBrace | TRBrace | TLBracket | TRBracket | TColon | TComma
  | TString jsstring | TNumber jsstring | TWord jsstring

definition is_ws :: "code_unit \<Rightarrow> bool" where
  "is_ws c \<longleftrightarrow> c = 0x20 \<or> c = 0x09 \<or> c = 0x0A \<or> c = 0x0D"

definition is_digit :: "code_unit \<Rightarrow> bool" where
  "is_digit c \<longleftrightarrow> 0x30 \<le> c \<and> c \<le> 0x39"

definition is_numchar :: "code_unit \<Rightarrow> bool" where
  "is_numchar c \<longleftrightarrow> is_digit c \<or> c = 0x2D \<or> c = 0x2B \<or> c = 0x2E \<or> c = 0x65 \<or> c = 0x45"

definition is_letter :: "code_unit \<Rightarrow> bool" where
  "is_letter c \<longleftrightarrow> 0x61 \<le> c \<and> c \<le> 0x7A"

definition hexval :: "code_unit \<Rightarrow> nat option" where
  "hexval c =
     (if 0x30 \<le> c \<and> c \<le> 0x39 then Some (unat c - 0x30)
      else if 0x41 \<le> c \<and> c \<le> 0x46 then Some (unat c - 0x41 + 10)
      else if 0x61 \<le> c \<and> c \<le> 0x66 then Some (unat c - 0x61 + 10)
      else None)"

definition unescape :: "code_unit \<Rightarrow> code_unit option" where
  "unescape e =
     (if e = 0x22 \<or> e = 0x5C \<or> e = 0x2F then Some e
      else if e = 0x62 then Some 0x08
      else if e = 0x66 then Some 0x0C
      else if e = 0x6E then Some 0x0A
      else if e = 0x72 then Some 0x0D
      else if e = 0x74 then Some 0x09
      else None)"

definition cons_fst :: "'a \<Rightarrow> ('a list \<times> 'b) option \<Rightarrow> ('a list \<times> 'b) option" where
  "cons_fst x r = map_option (\<lambda>(xs, y). (x # xs, y)) r"

fun lex_string :: "jsstring \<Rightarrow> (jsstring \<times> jsstring) option" where
  "lex_string [] = None"
| "lex_string (c # cs) =
    (if c = 0x22 then Some ([], cs)
     else if c < 0x20 then None
     else if c = 0x5C then
       (case cs of
          [] \<Rightarrow> None
        | e # cs1 \<Rightarrow>
            if e = 0x75 then
              (case cs1 of
                 h1 # h2 # h3 # h4 # cs2 \<Rightarrow>
                   (case (hexval h1, hexval h2, hexval h3, hexval h4) of
                      (Some a, Some b, Some c', Some d) \<Rightarrow>
                        cons_fst (of_nat (((a * 16 + b) * 16 + c') * 16 + d)) (lex_string cs2)
                    | _ \<Rightarrow> None)
               | _ \<Rightarrow> None)
            else
              (case unescape e of
                 None \<Rightarrow> None
               | Some u \<Rightarrow> cons_fst u (lex_string cs1)))
     else cons_fst c (lex_string cs))"

function tokenize :: "jsstring \<Rightarrow> token list option" where
  "tokenize [] = Some []"
| "tokenize (c # cs) =
    (if is_ws c then tokenize cs
     else if c = 0x7B then map_option ((#) TLBrace) (tokenize cs)
     else if c = 0x7D then map_option ((#) TRBrace) (tokenize cs)
     else if c = 0x5B then map_option ((#) TLBracket) (tokenize cs)
     else if c = 0x5D then map_option ((#) TRBracket) (tokenize cs)
     else if c = 0x3A then map_option ((#) TColon) (tokenize cs)
     else if c = 0x2C then map_option ((#) TComma) (tokenize cs)
     else if c = 0x22 then
       (case lex_string cs of
          None \<Rightarrow> None
        | Some (s, rest) \<Rightarrow> map_option ((#) (TString s)) (tokenize rest))
     else if is_numchar c then
       map_option ((#) (TNumber (c # takeWhile is_numchar cs))) (tokenize (dropWhile is_numchar cs))
     else if is_letter c then
       map_option ((#) (TWord (c # takeWhile is_letter cs))) (tokenize (dropWhile is_letter cs))
     else None)"
  by pat_completeness auto

termination
proof (relation "measure length")
  have shorter: "length rest < length cs" if "lex_string cs = Some (s, rest)" for cs s rest
    using that
  proof (induction cs arbitrary: s rest rule: lex_string.induct)
    case 1
    then show ?case by simp
  next
    case (2 c cs)
    then show ?case
      by (auto simp: cons_fst_def split: if_splits list.splits option.splits prod.splits) fastforce+
  qed
  fix c cs x2 x y
  assume "lex_string cs = Some x2" "(x, y) = x2"
  then show "(y, c # cs) \<in> measure length"
    using shorter [of cs x y] by simp
qed (auto simp: length_dropWhile_le less_Suc_eq_le)

definition digits1 :: "jsstring \<Rightarrow> bool" where
  "digits1 ds \<longleftrightarrow> ds \<noteq> [] \<and> list_all is_digit ds"

definition num_exp :: "jsstring \<Rightarrow> bool" where
  "num_exp cs =
     (case cs of
        [] \<Rightarrow> True
      | e # ds \<Rightarrow>
          (e = 0x65 \<or> e = 0x45) \<and>
          (case ds of
             [] \<Rightarrow> False
           | s # ds1 \<Rightarrow> if s = 0x2B \<or> s = 0x2D then digits1 ds1 else digits1 ds))"

definition num_frac :: "jsstring \<Rightarrow> bool" where
  "num_frac cs =
     (case cs of
        [] \<Rightarrow> True
      | p # ds \<Rightarrow>
          if p = 0x2E then takeWhile is_digit ds \<noteq> [] \<and> num_exp (dropWhile is_digit ds)
          else num_exp cs)"

definition num_int :: "jsstring \<Rightarrow> bool" where
  "num_int cs =
     (case cs of
        [] \<Rightarrow> False
      | d # ds \<Rightarrow>
          if d = 0x30 then num_frac ds
          else is_digit d \<and> num_frac (dropWhile is_digit ds))"

definition valid_number :: "jsstring \<Rightarrow> bool" where
  "valid_number cs =
     (case cs of
        [] \<Rightarrow> False
      | m # ds \<Rightarrow> if m = 0x2D then num_int ds else num_int cs)"

definition scalar :: "(jsstring \<Rightarrow> real) \<Rightarrow> token \<Rightarrow> jsval option" where
  "scalar num t =
     (case t of
        TString s \<Rightarrow> Some (JStr s)
      | TNumber n \<Rightarrow> if valid_number n then Some (JNum (num n)) else None
      | TWord w \<Rightarrow>
          if w = js ''true'' then Some (JBool True)
          else if w = js ''false'' then Some (JBool False)
          else if w = js ''null'' then Some JNull
          else None
      | _ \<Rightarrow> None)"

fun set_member :: "jsstring \<Rightarrow> jsval \<Rightarrow> (jsstring \<times> jsval) list \<Rightarrow> (jsstring \<times> jsval) list" where
  "set_member k v [] = [(k, v)]"
| "set_member k v ((k', v') # ms) = (if k' = k then (k, v) # ms else (k', v') # set_member k v ms)"

datatype frame = InArr "jsval list" | InObj "(jsstring \<times> jsval) list" jsstring

datatype pstate =
    PValue "frame list"
  | PArrStart "frame list"
  | PObjStart "frame list"
  | PKey "(jsstring \<times> jsval) list" "frame list"
  | PColon "(jsstring \<times> jsval) list" jsstring "frame list"
  | PAfter jsval "frame list"

definition value_step :: "(jsstring \<Rightarrow> real) \<Rightarrow> frame list \<Rightarrow> token \<Rightarrow> pstate option" where
  "value_step num stack t =
     (case t of
        TLBrace \<Rightarrow> Some (PObjStart stack)
      | TLBracket \<Rightarrow> Some (PArrStart stack)
      | _ \<Rightarrow> map_option (\<lambda>v. PAfter v stack) (scalar num t))"

fun pstep :: "(jsstring \<Rightarrow> real) \<Rightarrow> pstate \<Rightarrow> token \<Rightarrow> pstate option" where
  "pstep num (PValue stack) t = value_step num stack t"
| "pstep num (PArrStart stack) t =
     (if t = TRBracket then Some (PAfter (JArr []) stack)
      else value_step num (InArr [] # stack) t)"
| "pstep num (PObjStart stack) t =
     (case t of
        TRBrace \<Rightarrow> Some (PAfter (JObj []) stack)
      | TString k \<Rightarrow> Some (PColon [] k stack)
      | _ \<Rightarrow> None)"
| "pstep num (PKey ms stack) t =
     (case t of TString k \<Rightarrow> Some (PColon ms k stack) | _ \<Rightarrow> None)"
| "pstep num (PColon ms k stack) t =
     (if t = TColon then Some (PValue (InObj ms k # stack)) else None)"
| "pstep num (PAfter v []) t = None"
| "pstep num (PAfter v (InArr vs # stack)) t =
     (if t = TComma then Some (PValue (InArr (vs @ [v]) # stack))
      else if t = TRBracket then Some (PAfter (JArr (vs @ [v])) stack)
      else None)"
| "pstep num (PAfter v (InObj ms k # stack)) t =
     (if t = TComma then Some (PKey (set_member k v ms) stack)
      else if t = TRBrace then Some (PAfter (JObj (set_member k v ms)) stack)
      else None)"

fun prun :: "(jsstring \<Rightarrow> real) \<Rightarrow> pstate \<Rightarrow> token list \<Rightarrow> jsval option" where
  "prun num st [] = (case st of PAfter v [] \<Rightarrow> Some v | _ \<Rightarrow> None)"
| "prun num st (t # ts) = (case pstep num st t of None \<Rightarrow> None | Some st' \<Rightarrow> prun num st' ts)"

definition json_parse :: "(jsstring \<Rightarrow> real) \<Rightarrow> jsstring \<Rightarrow> jsval option" where
  "json_parse num s = (case tokenize s of None \<Rightarrow> None | Some ts \<Rightarrow> prun num (PValue []) ts)"

subsection \<open>A scripted endpoint\<close>

text \<open>
  A platform whose \<open>fetch\<close> answers with the next response of a list, for the concrete
  runs: \<open>ok_response t\<close> is a success whose envelope holds the text \<open>t\<close> in
  \<open>candidates[0].content.parts[0].text\<close>, \<open>error_response\<close> a failure with a body.
\<close>

definition scripted_fetch :: "http_request \<Rightarrow> http_response list \<Rightarrow> (error + http_response) \<times> http_response list" where
  "scripted_fetch req w = (case w of [] \<Rightarrow> (Inl TypeError, []) | r # rs \<Rightarrow> (Inr r, rs))"

definition test_platform :: "http_response list platform" where
  "test_platform =
     \<lparr>JSON_parse = json_parse (\<lambda>_. 0),
      JSON_stringify = (\<lambda>_. js ''{}''),
      ToString = (\<lambda>_. js ''[object Object]''),
      ToNumber = (\<lambda>_. None),
      encodeURIComponent = Some,
      fetch = scripted_fetch\<rparr>"

definition envelope :: "jsstring \<Rightarrow> jsval" where
  "envelope t =
     JObj [(js ''candidates'',
        JArr [JObj [(js ''content'', JObj [(js ''parts'', JArr [JObj [(js ''text'', JStr t)]])])]])]"

definition ok_response :: "jsstring \<Rightarrow> http_response" where
  "ok_response t =
     \<lparr>ok = True, status = 200, statusText = js ''OK'', res_text = None, res_json = Inr (envelope t)\<rparr>"

definition error_response :: "nat \<Rightarrow> jsstring \<Rightarrow> jsstring \<Rightarrow> http_response" where
  "error_response code reason body =
     \<lparr>ok = False, status = code, statusText = reason, res_text = Some body, res_json = Inl SyntaxError\<rparr>"

definition test_request :: "jsstring \<Rightarrow> jsstring \<Rightarrow> http_request" where
  "test_request m k =
     \<lparr>req_url = API_BASE @ js ''/'' @ m @ js '':generateContent?key='' @ k,
      req_method = js ''POST'',
      req_headers = [(js ''Content-Type'', js ''application/json'')],
      req_body = js ''{}''\<rparr>"

subsection \<open>A stand-in cipher\<close>

text \<open>
  The contract of AES-GCM the results below rest on: decryption under the key and
  parameters of the encryption returns the plaintext.
\<close>

definition aead_correct :: "('pk, 'k, 'g) crypto \<Rightarrow> bool" where
  "aead_correct cr \<longleftrightarrow>
     (\<forall>p k pt ct. encrypt cr p k pt = Inr ct \<longrightarrow> decrypt cr p k ct = Inr pt)"

text \<open>
  \<open>toy_crypto\<close> is not AES-GCM: it is a cipher that meets this contract, for the
  concrete runs.  Its key is the passphrase bytes followed by the salt, its ciphertext
  the plaintext behind a tag of the key, which decryption compares with the tag of its
  own key, and its generator counts.
\<close>

fun key_tag :: "bytes \<Rightarrow> bytes" where
  "key_tag [] = [0]"
| "key_tag (b # k) = 1 # b # key_tag k"

definition toy_crypto :: "(bytes, bytes, nat) crypto" where
  "toy_crypto =
     \<lparr>importKey = (\<lambda>format keyData algorithm extractable usages. Inr keyData),
      deriveKey = (\<lambda>params passKey derived extractable usages. Inr (passKey @ kdf_salt params)),
      encrypt = (\<lambda>params k pt. Inr (key_tag k @ pt)),
      decrypt = (\<lambda>params k ct.
         if take (length (key_tag k)) ct = key_tag k then Inr (drop (length (key_tag k)) ct)
         else Inl (DOMException (js ''OperationError''))),
      random_byte = (\<lambda>g. (of_nat g, Suc g))\<rparr>"

section \<open>Notions the properties are stated with\<close>

text \<open>
  The slices line 166 builds while the loop runs, in order.  The function follows
  \<open>scan\<close> branch by branch and collects the candidate where \<open>scan\<close> calls \<open>parse\<close>.
\<close>

fun candidates :: "jsstring \<Rightarrow> jsstring \<Rightarrow> int \<Rightarrow> bool \<Rightarrow> bool \<Rightarrow> jsstring list" where
  "candidates seen [] depth inString escape = []"
| "candidates seen (ch # rest) depth inString escape =
    (if escape then candidates (seen @ [ch]) rest depth inString False
     else if [ch] = backslash_literal then candidates (seen @ [ch]) rest depth inString True
     else if [ch] = js ''\"'' then candidates (seen @ [ch]) rest depth (\<not> inString) escape
     else if inString then candidates (seen @ [ch]) rest depth inString escape
     else
       (let depth1 = (if [ch] = js ''{'' then depth + 1 else depth) in
        if [ch] = js ''}'' then
          (let depth2 = depth1 - 1 in
           if depth2 = 0 then (seen @ [ch]) # candidates (seen @ [ch]) rest depth2 inString escape
           else candidates (seen @ [ch]) rest depth2 inString escape)
        else candidates (seen @ [ch]) rest depth1 inString escape))"

text \<open>
The candidates of a whole text: the scan starts at the first \<open>{\<close>.
\<close>

definition tried :: "jsstring \<Rightarrow> jsstring list" where
  "tried s = candidates [] (from_first_brace s) 0 False False"

text \<open>
The first candidate that parses, with its value.
\<close>

definition first_parsed :: "(jsstring \<Rightarrow> jsval option) \<Rightarrow> jsstring list \<Rightarrow> (jsstring \<times> jsval) option" where
  "first_parsed parse cs =
     (case List.find (\<lambda>c. parse c \<noteq> None) cs of
        None \<Rightarrow> None
      | Some c \<Rightarrow> map_option (Pair c) (parse c))"

text \<open>
  An exchange is a success when \<open>fetch\<close> resolved to a response whose \<open>ok\<close> is true.
  \<open>run_ok new r\<close>: in the run \<open>new\<close> every exchange before the last is a success, and
  if the last one is a response that is not \<open>ok\<close>, the result \<open>r\<close> is the error of
  line 191 for that response.
\<close>

definition ok_exchange :: "http_request \<times> (error + http_response) \<Rightarrow> bool" where
  "ok_exchange x = (case snd x of Inl e \<Rightarrow> False | Inr res \<Rightarrow> ok res)"

definition run_ok :: "(http_request \<times> (error + http_response)) list \<Rightarrow> error + 'a \<Rightarrow> bool" where
  "run_ok new r \<longleftrightarrow>
     list_all ok_exchange (butlast new) \<and>
     (\<forall>q res. new \<noteq> [] \<and> last new = (q, Inr res) \<and> \<not> ok res \<longrightarrow>
        r = Inl (Error (http_error_message res)))"

text \<open>
  A string is well formed when every surrogate is part of a pair; a scalar value is a
  code point that is not a surrogate.
\<close>

fun well_formed :: "jsstring \<Rightarrow> bool" where
  "well_formed [] = True"
| "well_formed [c] = (\<not> is_high_surrogate c \<and> \<not> is_low_surrogate c)"
| "well_formed (c # d # rest) =
     (if is_high_surrogate c then is_low_surrogate d \<and> well_formed rest
      else \<not> is_low_surrogate c \<and> well_formed (d # rest))"

definition is_scalar :: "nat \<Rightarrow> bool" where
  "is_scalar cp \<longleftrightarrow> cp < 0x110000 \<and> \<not> (0xD800 \<le> cp \<and> cp \<le> 0xDFFF)"

section \<open>Properties of extractFirstJson\<close>

lemma first_parsed_simps:
  "first_parsed parse [] = None"
  "first_parsed parse (c # cs) = (case parse c of Some v \<Rightarrow> Some (c, v) | None \<Rightarrow> first_parsed parse cs)"
  by (auto simp: first_parsed_def split: option.splits)

lemma scan_candidates:
  "scan parse seen rest depth inString escape =
     first_parsed parse (candidates seen rest depth inString escape)"
  by (induction rest arbitrary: seen depth inString escape)
     (simp_all add: first_parsed_simps Let_def split: option.splits)

lemma candidates_step:
  "set (candidates seen (ch # rest) depth inString escape) \<subseteq>
     insert (seen @ [ch]) (\<Union>d s e. set (candidates (seen @ [ch]) rest d s e))"
  by (auto simp: Let_def)

lemma candidates_prefix:
  "c \<in> set (candidates seen rest depth inString escape) \<Longrightarrow>
     \<exists>n. c = seen @ take (Suc n) rest"
proof (induction rest arbitrary: seen depth inString escape)
  case Nil
  then show ?case by simp
next
  case (Cons ch rest)
  from Cons.prems candidates_step [of seen ch rest depth inString escape]
  consider "c = seen @ [ch]" | d s e where "c \<in> set (candidates (seen @ [ch]) rest d s e)"
    by blast
  then show ?case
  proof cases
    case 1
    then have "c = seen @ take (Suc 0) (ch # rest)" by simp
    then show ?thesis by blast
  next
    case 2
    from Cons.IH [OF 2] obtain n where "c = (seen @ [ch]) @ take (Suc n) rest" by blast
    then have "c = seen @ take (Suc (Suc n)) (ch # rest)" by simp
    then show ?thesis by blast
  qed
qed

lemma first_parsed_None: "first_parsed parse cs = None \<longleftrightarrow> (\<forall>c \<in> set cs. parse c = None)"
  by (induction cs) (auto simp: first_parsed_simps split: option.splits)

lemma first_parsed_Some:
  "first_parsed parse cs = Some (c, v) \<Longrightarrow> c \<in> set cs \<and> parse c = Some v"
  by (induction cs) (auto simp: first_parsed_simps split: option.splits)

lemma tried_Nil: "from_first_brace s = [] \<Longrightarrow> tried s = []"
  by (simp add: tried_def)

lemma from_first_brace_Nil [simp]: "from_first_brace [] = []"
  by (simp add: from_first_brace_def)

lemma extractFirstJson_tried:
  "extractFirstJson parse (JStr s) = first_parsed parse (tried s)"
  by (simp add: extractFirstJson_def tried_def scan_candidates first_parsed_simps)

lemma js_lbrace: "js ''{'' = [0x7B]"
  by (simp add: js_def)

lemma from_first_brace_no_brace: "0x7B \<notin> set s \<Longrightarrow> from_first_brace s = []"
  by (induction s) (auto simp: from_first_brace_def js_lbrace)

lemmas json_eval = json_parse_def js_def is_ws_def is_numchar_def is_digit_def is_letter_def
  cons_fst_def scalar_def value_step_def unescape_def hexval_def valid_number_def num_int_def
  num_frac_def num_exp_def digits1_def

lemmas scan_eval = extractFirstJson_def from_first_brace_def backslash_literal_def Let_def js_def

lemma from_first_brace_append:
  "0x7B \<notin> set pre \<Longrightarrow> from_first_brace (pre @ 0x7B # xs) = 0x7B # xs"
  by (induction pre) (auto simp: from_first_brace_def js_lbrace)

lemma all_take_prefixes: "(\<forall>p \<in> set (prefixes xs). P p) \<Longrightarrow> P (take n xs)"
  by (simp add: in_set_prefixes take_is_prefix)

lemma tried_prefix:
  assumes "c \<in> set (tried s)"
  shows "prefix c (from_first_brace s) \<and> c \<noteq> []"
proof -
  from assms obtain n where "c = [] @ take (Suc n) (from_first_brace s)"
    unfolding tried_def using candidates_prefix by blast
  moreover from assms have "from_first_brace s \<noteq> []"
    by (auto simp: tried_def)
  ultimately show ?thesis by (auto simp: take_is_prefix)
qed

subsection \<open>C5: totality, and the two ways to \<open>null\<close>\<close>

text \<open>
  \<open>scan\<close> is structurally recursive over the text and \<open>extractFirstJson\<close> has no error
  result: for every value \<open>t\<close> and every behaviour of \<open>JSON.parse\<close> (also one that throws
  on every input) the call returns, and what it returns is either \<open>null\<close> or a candidate
  together with the value \<open>JSON.parse\<close> gave for it.
\<close>

lemma extractFirstJson_returns:
  "extractFirstJson parse t = None \<or>
   (\<exists>c v. extractFirstJson parse t = Some (c, v) \<and> parse c = Some v)"
proof (cases t)
  case (JStr s)
  then show ?thesis
    using first_parsed_Some [of parse "tried s"]
    by (cases "first_parsed parse (tried s)") (auto simp: extractFirstJson_tried)
qed (simp_all add: extractFirstJson_def)

text \<open>
  Claim C5.  \<open>extractFirstJson\<close> is total and never raises: on every value \<open>t\<close> it
  returns \<open>null\<close> or a parsed candidate; on a string \<open>s\<close> it returns \<open>null\<close> when \<open>s\<close>
  has no \<open>{\<close> (code unit \<open>0x7B\<close>), and when \<open>JSON.parse\<close> rejects every candidate
  slice of \<open>s\<close>.
\<close>

theorem extractFirstJson_total_null:
  "(extractFirstJson parse t = None \<or>
      (\<exists>c v. extractFirstJson parse t = Some (c, v) \<and> parse c = Some v)) \<and>
   (0x7B \<notin> set s \<longrightarrow> extractFirstJson parse (JStr s) = None) \<and>
   ((\<forall>c \<in> set (tried s). parse c = None) \<longrightarrow> extractFirstJson parse (JStr s) = None)"
proof (intro conjI impI)
  show "extractFirstJson parse t = None \<or>
      (\<exists>c v. extractFirstJson parse t = Some (c, v) \<and> parse c = Some v)"
    by (rule extractFirstJson_returns)
next
  assume "0x7B \<notin> set s"
  then show "extractFirstJson parse (JStr s) = None"
    by (simp add: extractFirstJson_tried tried_Nil from_first_brace_no_brace first_parsed_simps)
next
  assume "\<forall>c \<in> set (tried s). parse c = None"
  then show "extractFirstJson parse (JStr s) = None"
    by (simp add: extractFirstJson_tried first_parsed_None)
qed

theorem extractFirstJson_total_null_witness:
  "extractFirstJson (json_parse (\<lambda>_. 0)) (JStr (js ''no json here'')) = None \<and>
   tried (js ''{a} and {b'') = [js ''{a}''] \<and>
   extractFirstJson (json_parse (\<lambda>_. 0)) (JStr (js ''{a} and {b'')) = None"
proof -
  have no_brace: "0x7B \<notin> set (js ''no json here'')"
    by (simp add: js_def)
  have cands: "tried (js ''{a} and {b'') = [js ''{a}'']"
    by (simp add: tried_def scan_eval)
  have rejected: "\<forall>c \<in> set (tried (js ''{a} and {b'')). json_parse (\<lambda>_. 0) c = None"
    unfolding cands by (simp add: json_eval)
  from no_brace cands rejected show ?thesis
    using extractFirstJson_total_null [where parse = "json_parse (\<lambda>_. 0)" and s = "js ''no json here''"]
      extractFirstJson_total_null [where parse = "json_parse (\<lambda>_. 0)" and s = "js ''{a} and {b''"]
    by blast
qed

subsection \<open>C6: backslash escapes\<close>

text \<open>
  The comparison of line 159 is between the one-character string \<open>ch\<close> and the
  two-character literal, so it never holds: the \<open>escape\<close> flag is never set and a
  backslash is scanned like any other character.
\<close>

lemma backslash_never_matches: "[ch] \<noteq> backslash_literal"
  by (simp add: backslash_literal_def)

lemma scan_backslash_ordinary:
  "scan parse seen (0x5C # rest) depth inString False =
     scan parse (seen @ [0x5C]) rest depth inString False"
  by (simp add: backslash_literal_def js_def Let_def)

text \<open>
  Claim C6 says that a backslash inside a string literal escapes the next character, so
  that an escaped quote does not end the string.  On the text
  \<^verbatim>\<open>{"k":"a\"}"}\<close>, which is one JSON object whose value holds an escaped quote and a
  closing brace, the scanner ends the string at the escaped quote, tries the slice
  \<^verbatim>\<open>{"k":"a\"}\<close> only, and returns \<open>null\<close>, although the whole text parses.
\<close>

theorem extractFirstJson_escaped_quote:
  "tried (js ''{\"k\":\"a'' @ [0x5C] @ js ''\"}\"}'') = [js ''{\"k\":\"a'' @ [0x5C] @ js ''\"}''] \<and>
   extractFirstJson (json_parse num) (JStr (js ''{\"k\":\"a'' @ [0x5C] @ js ''\"}\"}'')) = None \<and>
   json_parse num (js ''{\"k\":\"a'' @ [0x5C] @ js ''\"}\"}'') =
     Some (JObj [(js ''k'', JStr (js ''a\"}''))])"
  by (simp add: tried_def scan_eval json_eval)

subsection \<open>C7: a brace inside a string value\<close>

lemma example_object_parses:
  "json_parse num (js ''{\"a\": \"b{c}d\"}'') = Some (JObj [(js ''a'', JStr (js ''b{c}d''))])"
  by (simp add: json_eval)

text \<open>
  Inside a string literal the scanner reads on to the closing quote: the characters
  before the next double quote (code unit \<open>0x22\<close>), braces among them, leave the depth
  as it is and produce no candidate.
\<close>

lemma scan_in_string_skips:
  "0x22 \<notin> set v \<Longrightarrow>
     scan parse seen (v @ rest) depth True False = scan parse (seen @ v) rest depth True False"
  by (induction v arbitrary: seen) (simp_all add: backslash_literal_def js_def)

text \<open>
  Claim C7 speaks of every text that contains the object \<^verbatim>\<open>{"a": "b{c}d"}\<close>.  When
  another \<open>{\<close> comes before the object the scan starts there: on the text
  \<^verbatim>\<open>{} {"a": "b{c}d"}\<close> the result is the empty object \<^verbatim>\<open>{}\<close>.
\<close>

theorem extractFirstJson_earlier_object_counterexample:
  "extractFirstJson (json_parse (\<lambda>_. 0)) (JStr (js ''{} '' @ js ''{\"a\": \"b{c}d\"}'')) =
     Some (js ''{}'', JObj []) \<and>
   js ''{}'' \<noteq> js ''{\"a\": \"b{c}d\"}''"
  by (simp add: scan_eval json_eval)

text \<open>
  Claim C7, amended.  Let the \<open>{\<close> of the object be the first \<open>{\<close> of the text: the
  prefix \<open>pre\<close> has none, and the suffix \<open>post\<close> is arbitrary.  Inside a string literal
  a run \<open>v\<close> of characters without a double quote is skipped with the depth unchanged,
  whatever braces it holds.  So for every such string value \<open>v\<close>, balanced or not, the
  first slice tried on a text containing \<^verbatim>\<open>{"a": "v"}\<close> is that whole object, and it
  is returned with its value when \<open>JSON.parse\<close> accepts it.  In particular, on a text
  containing \<^verbatim>\<open>{"a": "b{c}d"}\<close> the result is that object, whole and unmodified: the
  slice is the object's text and the value is the object with the one member \<open>a\<close>,
  the string \<open>b{c}d\<close>.
\<close>

theorem extractFirstJson_brace_in_string:
  assumes "0x7B \<notin> set pre" and "0x22 \<notin> set v"
  shows "scan parse seen (v @ rest) depth True False = scan parse (seen @ v) rest depth True False \<and>
    extractFirstJson parse (JStr (pre @ js ''{\"a\": \"'' @ v @ js ''\"}'' @ post)) =
      (case parse (js ''{\"a\": \"'' @ v @ js ''\"}'') of
         Some r \<Rightarrow> Some (js ''{\"a\": \"'' @ v @ js ''\"}'', r)
       | None \<Rightarrow> scan parse (js ''{\"a\": \"'' @ v @ js ''\"}'') post 0 False False) \<and>
    extractFirstJson (json_parse num) (JStr (pre @ js ''{\"a\": \"b{c}d\"}'' @ post)) =
      Some (js ''{\"a\": \"b{c}d\"}'', JObj [(js ''a'', JStr (js ''b{c}d''))])"
proof -
  have general: "extractFirstJson p (JStr (pre @ js ''{\"a\": \"'' @ w @ js ''\"}'' @ post)) =
      (case p (js ''{\"a\": \"'' @ w @ js ''\"}'') of
         Some r \<Rightarrow> Some (js ''{\"a\": \"'' @ w @ js ''\"}'', r)
       | None \<Rightarrow> scan p (js ''{\"a\": \"'' @ w @ js ''\"}'') post 0 False False)"
    if w: "0x22 \<notin> set w" for p w
  proof -
    have obj: "js ''{\"a\": \"'' = 0x7B # js ''\"a\": \"''"
      by (simp add: js_def)
    have ffb: "from_first_brace (pre @ js ''{\"a\": \"'' @ w @ js ''\"}'' @ post) =
        js ''{\"a\": \"'' @ w @ js ''\"}'' @ post"
      using from_first_brace_append [OF assms(1), of "js ''\"a\": \"'' @ w @ js ''\"}'' @ post"]
      by (simp add: obj)
    have first_chars: "scan p [] (js ''{\"a\": \"'' @ w @ js ''\"}'' @ post) 0 False False =
        scan p (js ''{\"a\": \"'') (w @ js ''\"}'' @ post) 1 True False"
      by (simp add: js_def backslash_literal_def Let_def)
    have last_chars: "scan p (js ''{\"a\": \"'' @ w) (js ''\"}'' @ post) 1 True False =
        (case p (js ''{\"a\": \"'' @ w @ js ''\"}'') of
           Some r \<Rightarrow> Some (js ''{\"a\": \"'' @ w @ js ''\"}'', r)
         | None \<Rightarrow> scan p (js ''{\"a\": \"'' @ w @ js ''\"}'') post 0 False False)"
      by (simp add: js_def backslash_literal_def Let_def split: option.splits)
    have ne: "pre @ js ''{\"a\": \"'' @ w @ js ''\"}'' @ post \<noteq> []"
      by (simp add: js_def)
    have ne': "from_first_brace (pre @ js ''{\"a\": \"'' @ w @ js ''\"}'' @ post) \<noteq> []"
      unfolding ffb by (simp add: js_def)
    have "extractFirstJson p (JStr (pre @ js ''{\"a\": \"'' @ w @ js ''\"}'' @ post)) =
        scan p [] (from_first_brace (pre @ js ''{\"a\": \"'' @ w @ js ''\"}'' @ post)) 0 False False"
      using ne ne' by (simp add: extractFirstJson_def)
    also have "\<dots> = scan p (js ''{\"a\": \"'' @ w) (js ''\"}'' @ post) 1 True False"
      by (simp only: ffb first_chars scan_in_string_skips [OF w])
    finally show ?thesis
      by (simp only: last_chars)
  qed
  have ex: "js ''{\"a\": \"b{c}d\"}'' = js ''{\"a\": \"'' @ js ''b{c}d'' @ js ''\"}''"
    by (simp add: js_def)
  have "0x22 \<notin> set (js ''b{c}d'')"
    by (simp add: js_def)
  from general [OF this, of "json_parse num"] example_object_parses [of num]
  have "extractFirstJson (json_parse num) (JStr (pre @ js ''{\"a\": \"b{c}d\"}'' @ post)) =
      Some (js ''{\"a\": \"b{c}d\"}'', JObj [(js ''a'', JStr (js ''b{c}d''))])"
    by (simp add: ex)
  with scan_in_string_skips [OF assms(2)] general [OF assms(2)] show ?thesis
    by simp
qed

theorem extractFirstJson_brace_in_string_witness:
  "extractFirstJson (json_parse (\<lambda>_. 0))
     (JStr (js ''Sure! '' @ js ''{\"a\": \"'' @ js ''}{{'' @ js ''\"}'' @ js '' }{ done'')) =
     Some (js ''{\"a\": \"}{{\"}'', JObj [(js ''a'', JStr (js ''}{{''))]) \<and>
   extractFirstJson (json_parse (\<lambda>_. 0))
     (JStr (js ''Sure! '' @ js ''{\"a\": \"b{c}d\"}'' @ js '' }{ done'')) =
     Some (js ''{\"a\": \"b{c}d\"}'', JObj [(js ''a'', JStr (js ''b{c}d''))])"
proof -
  have pre: "0x7B \<notin> set (js ''Sure! '')" and v: "0x22 \<notin> set (js ''}{{'')"
    by (simp_all add: js_def)
  have p: "json_parse (\<lambda>_. 0) (js ''{\"a\": \"'' @ js ''}{{'' @ js ''\"}'') =
      Some (JObj [(js ''a'', JStr (js ''}{{''))])"
    by (simp add: json_eval)
  have e: "js ''{\"a\": \"'' @ js ''}{{'' @ js ''\"}'' = js ''{\"a\": \"}{{\"}''"
    by (simp add: js_def)
  from extractFirstJson_brace_in_string [OF pre v, of "json_parse (\<lambda>_. 0)" _ _ _ "js '' }{ done''" "\<lambda>_. 0"] p e
  show ?thesis by simp
qed

subsection \<open>C8: the start index never moves\<close>

text \<open>
  Every candidate ends with a \<open>}\<close> (code unit \<open>0x7D\<close>) and extends what was read
  before it, so each candidate is a proper prefix of the next one.
\<close>

lemma candidates_cases:
  "c \<in> set (candidates seen (ch # rest) depth inString escape) \<Longrightarrow>
     (c = seen @ [ch] \<and> ch = 0x7D) \<or> (\<exists>d s e. c \<in> set (candidates (seen @ [ch]) rest d s e))"
  by (auto simp: Let_def js_def split: if_splits)

lemma candidates_extend:
  "c \<in> set (candidates seen rest depth inString escape) \<Longrightarrow>
     strict_prefix seen c \<and> last c = 0x7D"
proof (induction rest arbitrary: seen depth inString escape)
  case Nil
  then show ?case by simp
next
  case (Cons ch rest)
  from candidates_cases [OF Cons.prems]
  consider "c = seen @ [ch]" "ch = 0x7D" | d s e where "c \<in> set (candidates (seen @ [ch]) rest d s e)"
    by blast
  then show ?case
  proof cases
    case 1
    then show ?thesis by (simp add: strict_prefix_def)
  next
    case 2
    from Cons.IH [OF 2] have "strict_prefix (seen @ [ch]) c" and "last c = 0x7D"
      by simp_all
    then show ?thesis
      by (auto simp: strict_prefix_def prefix_def)
  qed
qed

lemma candidates_sorted:
  "sorted_wrt strict_prefix (candidates seen rest depth inString escape)"
proof (induction rest arbitrary: seen depth inString escape)
  case Nil
  then show ?case by simp
next
  case (Cons ch rest)
  have later: "\<forall>c \<in> set (candidates xs rest d s e). strict_prefix xs c" for xs d s e
    using candidates_extend by blast
  show ?case
    using Cons.IH by (simp add: Let_def later)
qed

lemma tried_extend:
  "sorted_wrt strict_prefix (tried s) \<and> (\<forall>c \<in> set (tried s). last c = 0x7D)"
  using candidates_sorted candidates_extend unfolding tried_def by blast

text \<open>
  Claim C8.  The result of \<open>extractFirstJson\<close> is the first candidate that parses, in
  the order in which the loop builds the candidates.  Every candidate, and so every
  slice returned, is a non-empty prefix of the text from its first \<open>{\<close> on and ends
  with a \<open>}\<close>, and each candidate is a proper prefix of the next: the start never
  moves to a later \<open>{\<close>.  A candidate that fails to parse does not end the scan:
  when every candidate before \<open>c\<close> fails and \<open>c\<close> parses, the result is \<open>c\<close>, a
  slice that ends at a later \<open>}\<close> and has the same start.  When every candidate fails
  the result is \<open>null\<close>, whatever \<open>JSON.parse\<close> says of other substrings.
\<close>

theorem extractFirstJson_same_start:
  "extractFirstJson parse (JStr s) = first_parsed parse (tried s) \<and>
   (\<forall>c \<in> set (tried s). prefix c (from_first_brace s) \<and> c \<noteq> [] \<and> last c = 0x7D) \<and>
   sorted_wrt strict_prefix (tried s) \<and>
   (\<forall>before c after v.
      tried s = before @ c # after \<and> (\<forall>b \<in> set before. parse b = None) \<and> parse c = Some v \<longrightarrow>
      extractFirstJson parse (JStr s) = Some (c, v)) \<and>
   (\<forall>c v. extractFirstJson parse (JStr s) = Some (c, v) \<longrightarrow>
      prefix c (from_first_brace s) \<and> c \<noteq> []) \<and>
   ((\<forall>c \<in> set (tried s). parse c = None) \<longrightarrow> extractFirstJson parse (JStr s) = None)"
proof -
  have eq: "extractFirstJson parse (JStr s) = first_parsed parse (tried s)"
    by (rule extractFirstJson_tried)
  have skip: "first_parsed parse (before @ cs) = first_parsed parse cs"
    if "\<forall>b \<in> set before. parse b = None" for before cs
    using that by (induction before) (simp_all add: first_parsed_simps)
  have later: "extractFirstJson parse (JStr s) = Some (c, v)"
    if "tried s = before @ c # after" "\<forall>b \<in> set before. parse b = None" "parse c = Some v"
    for before c after v
    using that skip [of before "c # after"] by (simp add: eq first_parsed_simps)
  have res: "prefix c (from_first_brace s) \<and> c \<noteq> []"
    if "extractFirstJson parse (JStr s) = Some (c, v)" for c v
    using that first_parsed_Some [of parse "tried s" c v] tried_prefix [of c s]
    by (simp add: eq)
  have none: "extractFirstJson parse (JStr s) = None"
    if "\<forall>c \<in> set (tried s). parse c = None"
    using that by (simp add: eq first_parsed_None)
  have cands: "\<forall>c \<in> set (tried s). prefix c (from_first_brace s) \<and> c \<noteq> [] \<and> last c = 0x7D"
    using tried_prefix tried_extend by blast
  have incr: "sorted_wrt strict_prefix (tried s)"
    using tried_extend by blast
  from eq cands incr later res none show ?thesis by blast
qed

theorem extractFirstJson_same_start_witness:
  "tried (js ''{\"k\":\"a'' @ [0x5C] @ js ''\"}{'' @ [0x5C] @ js ''\"\"}'') =
     [js ''{\"k\":\"a'' @ [0x5C] @ js ''\"}'',
      js ''{\"k\":\"a'' @ [0x5C] @ js ''\"}{'' @ [0x5C] @ js ''\"\"}''] \<and>
   json_parse (\<lambda>_. 0) (js ''{\"k\":\"a'' @ [0x5C] @ js ''\"}'') = None \<and>
   extractFirstJson (json_parse (\<lambda>_. 0))
       (JStr (js ''{\"k\":\"a'' @ [0x5C] @ js ''\"}{'' @ [0x5C] @ js ''\"\"}'')) =
     Some (js ''{\"k\":\"a'' @ [0x5C] @ js ''\"}{'' @ [0x5C] @ js ''\"\"}'',
           JObj [(js ''k'', JStr (js ''a\"}{\"''))]) \<and>
   tried (js ''{a} {\"x\":true}'') = [js ''{a}'', js ''{a} {\"x\":true}''] \<and>
   extractFirstJson (json_parse (\<lambda>_. 0)) (JStr (js ''{a} {\"x\":true}'')) = None \<and>
   json_parse (\<lambda>_. 0) (js ''{\"x\":true}'') = Some (JObj [(js ''x'', JBool True)])"
proof -
  let ?c1 = "js ''{\"k\":\"a'' @ [0x5C] @ js ''\"}''"
  let ?s1 = "js ''{\"k\":\"a'' @ [0x5C] @ js ''\"}{'' @ [0x5C] @ js ''\"\"}''"
  let ?s2 = "js ''{a} {\"x\":true}''"
  have t1: "tried ?s1 = [] @ ?c1 # [?s1] \<and> tried ?s1 = [?c1] @ ?s1 # []"
    by (simp add: tried_def scan_eval)
  have p1: "json_parse (\<lambda>_. 0) ?c1 = None"
    by (simp add: json_eval)
  have p2: "json_parse (\<lambda>_. 0) ?s1 = Some (JObj [(js ''k'', JStr (js ''a\"}{\"''))])"
    by (simp add: json_eval)
  have t2: "tried ?s2 = [js ''{a}'', ?s2]"
    by (simp add: tried_def scan_eval)
  have p3: "json_parse (\<lambda>_. 0) (js ''{a}'') = None" "json_parse (\<lambda>_. 0) ?s2 = None"
    by (simp_all add: json_eval)
  have p4: "json_parse (\<lambda>_. 0) (js ''{\"x\":true}'') = Some (JObj [(js ''x'', JBool True)])"
    by (simp add: json_eval)
  have r1: "extractFirstJson (json_parse (\<lambda>_. 0)) (JStr ?s1) =
      Some (?s1, JObj [(js ''k'', JStr (js ''a\"}{\"''))])"
  proof -
    from extractFirstJson_same_start [of "json_parse (\<lambda>_. 0)" ?s1]
    have "tried ?s1 = [?c1] @ ?s1 # [] \<and> (\<forall>b \<in> set [?c1]. json_parse (\<lambda>_. 0) b = None) \<and>
        json_parse (\<lambda>_. 0) ?s1 = Some (JObj [(js ''k'', JStr (js ''a\"}{\"''))]) \<longrightarrow>
        extractFirstJson (json_parse (\<lambda>_. 0)) (JStr ?s1) =
          Some (?s1, JObj [(js ''k'', JStr (js ''a\"}{\"''))])"
      by blast
    with t1 p1 p2 show ?thesis by simp
  qed
  have r2: "extractFirstJson (json_parse (\<lambda>_. 0)) (JStr ?s2) = None"
  proof -
    from extractFirstJson_same_start [of "json_parse (\<lambda>_. 0)" ?s2]
    have "(\<forall>c \<in> set (tried ?s2). json_parse (\<lambda>_. 0) c = None) \<longrightarrow>
        extractFirstJson (json_parse (\<lambda>_. 0)) (JStr ?s2) = None"
      by blast
    with t2 p3 show ?thesis by simp
  qed
  from t1 p1 r1 t2 r2 p4 show ?thesis by simp
qed

section \<open>Properties of the fetch pipeline\<close>

lemma js_neq [simp]:
  "js ''candidates'' \<noteq> js ''length''" "js ''candidates'' \<noteq> js ''0''"
  "js ''length'' \<noteq> js ''0''" "js ''0'' \<noteq> js ''length''"
  by (simp_all add: js_def)

lemma extractText_envelope: "extractTextFromApiResponse (envelope t) = Some (JStr t)"
  by (simp add: extractTextFromApiResponse_def try_block_def envelope_def or_else_def bindE_def
      line137_def opt_get_def dot_get_def get_prop_def truthy_def is_string_def)

lemma callGemini_test_ok:
  "callGemini test_platform p m k \<lparr>world = ok_response t # rs, exchanges = xs\<rparr> =
     (Inr (JStr t, envelope t),
      \<lparr>world = rs, exchanges = xs @ [(test_request m k, Inr (ok_response t))]\<rparr>)"
  by (simp add: callGemini_def gemini_request_def do_fetch_def test_platform_def scripted_fetch_def
      ok_response_def extractText_envelope test_request_def)

lemma callGemini_test_error:
  "callGemini test_platform p m k \<lparr>world = error_response c r b # rs, exchanges = xs\<rparr> =
     (Inl (Error (http_error_message (error_response c r b))),
      \<lparr>world = rs, exchanges = xs @ [(test_request m k, Inr (error_response c r b))]\<rparr>)"
  by (simp add: callGemini_def gemini_request_def do_fetch_def test_platform_def scripted_fetch_def
      error_response_def test_request_def)

lemma rawSnippet_short: "length s \<le> 8000 \<Longrightarrow> rawSnippet pl (JStr s) = Inr s"
  by (simp add: rawSnippet_def)

subsection \<open>C3: the raw fallback\<close>

text \<open>
  Claim C3.  For every city, food, model and key: when the three attempts return the
  texts \<open>t1\<close>, \<open>t2\<close> and \<open>t3\<close> and \<open>extractFirstJson\<close> fails on each of them, the
  pipeline returns the object \<open>{ __raw: t1 }\<close>, with the text of the first attempt
  unchanged.
\<close>

theorem fetch_raw_fallback:
  assumes "callGemini pl (basePrompt city food) model apiKey st = (Inr (t1, j1), st1)"
    and "extractFirstJson (JSON_parse pl) t1 = None"
    and "rawSnippet pl t1 = Inr snippet"
    and "callGemini pl (reformatPrompt snippet) model apiKey st1 = (Inr (t2, j2), st2)"
    and "extractFirstJson (JSON_parse pl) t2 = None"
    and "callGemini pl (strictPrompt city food) model apiKey st2 = (Inr (t3, j3), st3)"
    and "extractFirstJson (JSON_parse pl) t3 = None"
  shows "fetchRestaurantSuggestions pl city food model apiKey st = (Inr (JObj [(js ''__raw'', t1)]), st3)"
  using assms by (simp add: fetchRestaurantSuggestions_def raw_fallback_def)

theorem fetch_raw_fallback_witness:
  "fetchRestaurantSuggestions test_platform (js ''Hyderabad, Telangana, India'') (js ''Qubani ka Meetha'')
      DEFAULT_MODEL (js ''KEY'')
      \<lparr>world = [ok_response (js ''I can not help with that.''),
                ok_response (js ''Here it is: {name: Shadab}''),
                ok_response (js ''no luck'')],
       exchanges = []\<rparr> =
     (Inr (JObj [(js ''__raw'', JStr (js ''I can not help with that.''))]),
      \<lparr>world = [],
       exchanges =
         [(test_request DEFAULT_MODEL (js ''KEY''), Inr (ok_response (js ''I can not help with that.''))),
          (test_request DEFAULT_MODEL (js ''KEY''), Inr (ok_response (js ''Here it is: {name: Shadab}''))),
          (test_request DEFAULT_MODEL (js ''KEY''), Inr (ok_response (js ''no luck'')))]\<rparr>)"
proof -
  have x1: "extractFirstJson (JSON_parse test_platform) (JStr (js ''I can not help with that.'')) = None"
    by (simp add: test_platform_def scan_eval)
  have x2: "extractFirstJson (JSON_parse test_platform) (JStr (js ''Here it is: {name: Shadab}'')) = None"
    by (simp add: test_platform_def scan_eval json_eval)
  have x3: "extractFirstJson (JSON_parse test_platform) (JStr (js ''no luck'')) = None"
    by (simp add: test_platform_def scan_eval)
  have sn: "rawSnippet test_platform (JStr (js ''I can not help with that.'')) =
      Inr (js ''I can not help with that.'')"
    by (rule rawSnippet_short) (simp add: js_def)
  show ?thesis
    using fetch_raw_fallback [OF callGemini_test_ok x1 sn callGemini_test_ok x2 callGemini_test_ok x3]
    by simp
qed

subsection \<open>C4: transport errors\<close>

lemma run_ok_Nil: "run_ok [] r"
  by (simp add: run_ok_def)

lemma run_ok_append:
  assumes "list_all ok_exchange n1" and "run_ok n2 r"
  shows "run_ok (n1 @ n2) r"
proof (cases "n2 = []")
  case True
  with assms(1) show ?thesis
    by (cases n1 rule: rev_cases) (auto simp: run_ok_def ok_exchange_def)
next
  case False
  with assms show ?thesis
    by (auto simp: run_ok_def butlast_append)
qed

lemma callGemini_exchange:
  assumes "callGemini pl p m k st = (r, st')"
  shows "\<exists>new. exchanges st' = exchanges st @ new \<and> length new \<le> 1 \<and> run_ok new r \<and>
           (\<not> isl r \<longrightarrow> list_all ok_exchange new)"
proof (cases "gemini_request pl p m k")
  case (Inl e)
  with assms have "st' = st" by (simp add: callGemini_def)
  then show ?thesis by (auto simp: run_ok_Nil intro: exI [of _ "[]"])
next
  case (Inr req)
  obtain out w where f: "fetch pl req (world st) = (out, w)" by (cases "fetch pl req (world st)")
  have ex: "exchanges st' = exchanges st @ [(req, out)]"
    using assms Inr f by (auto simp: callGemini_def do_fetch_def split: sum.splits if_splits)
  have bad: "r = Inl (Error (http_error_message res))" if "out = Inr res" "\<not> ok res" for res
    using assms Inr f that by (auto simp: callGemini_def do_fetch_def)
  have good: "ok_exchange (req, out)" if "\<not> isl r"
    using assms Inr f that by (auto simp: callGemini_def do_fetch_def ok_exchange_def split: sum.splits if_splits)
  show ?thesis
    using ex bad good by (intro exI [of _ "[(req, out)]"]) (auto simp: run_ok_def)
qed

lemma pipeline_step:
  fixes r :: "error + jsval" and rc :: "error + jsval \<times> jsval"
  assumes c: "callGemini pl p m k st = (rc, s1)"
    and fail: "\<And>e. rc = Inl e \<Longrightarrow> s' = s1 \<and> r = Inl e"
    and tail: "\<And>a. rc = Inr a \<Longrightarrow>
      \<exists>new. exchanges s' = exchanges s1 @ new \<and> length new \<le> n \<and> run_ok new r"
  shows "\<exists>new. exchanges s' = exchanges st @ new \<and> length new \<le> Suc n \<and> run_ok new r"
proof -
  from callGemini_exchange [OF c] obtain n1 where
    n1: "exchanges s1 = exchanges st @ n1" "length n1 \<le> 1" "run_ok n1 rc"
      "\<not> isl rc \<longrightarrow> list_all ok_exchange n1"
    by blast
  show ?thesis
  proof (cases rc)
    case (Inl e)
    with fail have "s' = s1" "r = Inl e" by auto
    moreover from n1(3) Inl \<open>r = Inl e\<close> have "run_ok n1 r"
      by (auto simp: run_ok_def)
    ultimately show ?thesis using n1 by (intro exI [of _ n1]) auto
  next
    case (Inr a)
    from tail [OF Inr] obtain n2 where
      n2: "exchanges s' = exchanges s1 @ n2" "length n2 \<le> n" "run_ok n2 r"
      by blast
    from n1(4) Inr have "list_all ok_exchange n1" by simp
    then have "run_ok (n1 @ n2) r" using n2(3) by (rule run_ok_append)
    then show ?thesis using n1 n2 by (intro exI [of _ "n1 @ n2"]) auto
  qed
qed

lemma no_more: "\<exists>new. exchanges s = exchanges s @ new \<and> length new \<le> n \<and> run_ok new r"
  by (intro exI [of _ "[]"]) (simp add: run_ok_Nil)

lemma fetch_run_ok:
  assumes "fetchRestaurantSuggestions pl city food model apiKey st = (r, st')"
  shows "\<exists>new. exchanges st' = exchanges st @ new \<and> length new \<le> 3 \<and> run_ok new r"
proof -
  obtain r1 s1 where c1: "callGemini pl (basePrompt city food) model apiKey st = (r1, s1)"
    by (cases "callGemini pl (basePrompt city food) model apiKey st")
  have "\<exists>new. exchanges st' = exchanges st @ new \<and> length new \<le> Suc 2 \<and> run_ok new r"
  proof (rule pipeline_step [OF c1])
    fix e assume "r1 = Inl e"
    with assms c1 show "st' = s1 \<and> r = Inl e"
      by (simp add: fetchRestaurantSuggestions_def)
  next
    fix a1 assume r1: "r1 = Inr a1"
    show "\<exists>new. exchanges st' = exchanges s1 @ new \<and> length new \<le> 2 \<and> run_ok new r"
    proof (cases "extractFirstJson (JSON_parse pl) (fst a1)")
      case (Some x)
      with assms c1 r1 have "st' = s1" by (simp add: fetchRestaurantSuggestions_def)
      then show ?thesis using no_more by blast
    next
      case x1: None
      show ?thesis
      proof (cases "rawSnippet pl (fst a1)")
        case (Inl e)
        with assms c1 r1 x1 have "st' = s1" by (simp add: fetchRestaurantSuggestions_def)
        then show ?thesis using no_more by blast
      next
        case (Inr snippet)
        obtain r2 s2 where c2: "callGemini pl (reformatPrompt snippet) model apiKey s1 = (r2, s2)"
          by (cases "callGemini pl (reformatPrompt snippet) model apiKey s1")
        have "\<exists>new. exchanges st' = exchanges s1 @ new \<and> length new \<le> Suc 1 \<and> run_ok new r"
        proof (rule pipeline_step [OF c2])
          fix e assume "r2 = Inl e"
          with assms c1 r1 x1 Inr c2 show "st' = s2 \<and> r = Inl e"
            by (simp add: fetchRestaurantSuggestions_def)
        next
          fix a2 assume r2: "r2 = Inr a2"
          show "\<exists>new. exchanges st' = exchanges s2 @ new \<and> length new \<le> 1 \<and> run_ok new r"
          proof (cases "extractFirstJson (JSON_parse pl) (fst a2)")
            case (Some x)
            with assms c1 r1 x1 Inr c2 r2 have "st' = s2" by (simp add: fetchRestaurantSuggestions_def)
            then show ?thesis using no_more by blast
          next
            case x2: None
            obtain r3 s3 where c3: "callGemini pl (strictPrompt city food) model apiKey s2 = (r3, s3)"
              by (cases "callGemini pl (strictPrompt city food) model apiKey s2")
            have "\<exists>new. exchanges st' = exchanges s2 @ new \<and> length new \<le> Suc 0 \<and> run_ok new r"
            proof (rule pipeline_step [OF c3])
              fix e assume "r3 = Inl e"
              with assms c1 r1 x1 Inr c2 r2 x2 c3 show "st' = s3 \<and> r = Inl e"
                by (simp add: fetchRestaurantSuggestions_def)
            next
              fix a3 assume r3: "r3 = Inr a3"
              with assms c1 r1 x1 Inr c2 r2 x2 c3 have "st' = s3"
                by (simp add: fetchRestaurantSuggestions_def split: option.splits)
              then show "\<exists>new. exchanges st' = exchanges s3 @ new \<and> length new \<le> 0 \<and> run_ok new r"
                using no_more by blast
            qed
            then show ?thesis by simp
          qed
        qed
        then show ?thesis by (simp add: numeral_2_eq_2)
      qed
    qed
  qed
  then show ?thesis by (simp add: numeral_3_eq_3)
qed

lemma fetch_first_error:
  "callGemini pl (basePrompt city food) model apiKey st = (Inl e, st1) \<Longrightarrow>
   fetchRestaurantSuggestions pl city food model apiKey st = (Inl e, st1)"
  by (simp add: fetchRestaurantSuggestions_def)

text \<open>
  Claim C4.  Every run of the pipeline sends at most three requests, and every exchange
  before the last is a success: a response with a non-success status is always the
  last exchange, no further attempt follows it.  The pipeline then fails with the error
  whose message holds the status code, the status text and, when the body is not
  empty, its first 400 code units.
\<close>

theorem transport_error_aborts:
  assumes "fetchRestaurantSuggestions pl city food model apiKey st = (r, st')"
  shows "\<exists>new. exchanges st' = exchanges st @ new \<and> length new \<le> 3 \<and>
     list_all ok_exchange (butlast new) \<and>
     (\<forall>q res. new \<noteq> [] \<and> last new = (q, Inr res) \<and> \<not> ok res \<longrightarrow>
        r = Inl (Error (js ''Gemini HTTP '' @ decimal (status res) @ js '' '' @ statusText res @
              (case res_text res of
                 None \<Rightarrow> []
               | Some t \<Rightarrow> if t \<noteq> [] then js '' '' @ [0x2014] @ js '' '' @ take 400 t else []))))"
  using fetch_run_ok [OF assms] unfolding run_ok_def http_error_message_def by blast

theorem transport_error_aborts_witness:
  "fetchRestaurantSuggestions test_platform (js ''Hyderabad, Telangana, India'') (js ''Qubani ka Meetha'')
      DEFAULT_MODEL (js ''KEY'')
      \<lparr>world = [error_response 429 (js ''Too Many Requests'') (replicate 500 0x78),
                ok_response (js ''{}'')],
       exchanges = []\<rparr> =
     (Inl (Error (js ''Gemini HTTP 429 Too Many Requests '' @ [0x2014] @ js '' '' @ replicate 400 0x78)),
      \<lparr>world = [ok_response (js ''{}'')],
       exchanges = [(test_request DEFAULT_MODEL (js ''KEY''),
          Inr (error_response 429 (js ''Too Many Requests'') (replicate 500 0x78)))]\<rparr>)"
proof -
  let ?resp = "error_response 429 (js ''Too Many Requests'') (replicate 500 0x78)"
  let ?final = "\<lparr>world = [ok_response (js ''{}'')],
       exchanges = [] @ [(test_request DEFAULT_MODEL (js ''KEY''), Inr ?resp)]\<rparr>"
  have run: "fetchRestaurantSuggestions test_platform (js ''Hyderabad, Telangana, India'')
      (js ''Qubani ka Meetha'') DEFAULT_MODEL (js ''KEY'')
      \<lparr>world = [?resp, ok_response (js ''{}'')], exchanges = []\<rparr> =
      (Inl (Error (http_error_message ?resp)), ?final)"
    by (rule fetch_first_error [OF callGemini_test_error])
  from transport_error_aborts [OF run] obtain new where
    new: "exchanges ?final =
      exchanges \<lparr>world = [?resp, ok_response (js ''{}'')], exchanges = []\<rparr> @ new"
    and err: "\<forall>q res. new \<noteq> [] \<and> last new = (q, Inr res) \<and> \<not> ok res \<longrightarrow>
        (Inl (Error (http_error_message ?resp)) :: error + jsval) =
        Inl (Error (js ''Gemini HTTP '' @ decimal (status res) @ js '' '' @ statusText res @
              (case res_text res of
                 None \<Rightarrow> []
               | Some t \<Rightarrow> if t \<noteq> [] then js '' '' @ [0x2014] @ js '' '' @ take 400 t else [])))"
    by blast
  from new have "new = [(test_request DEFAULT_MODEL (js ''KEY''), Inr ?resp)]" by simp
  with err have "http_error_message ?resp =
      js ''Gemini HTTP '' @ decimal (status ?resp) @ js '' '' @ statusText ?resp @
              (case res_text ?resp of
                 None \<Rightarrow> []
               | Some t \<Rightarrow> if t \<noteq> [] then js '' '' @ [0x2014] @ js '' '' @ take 400 t else [])"
    by (simp add: error_response_def)
  then have "http_error_message ?resp =
      js ''Gemini HTTP 429 Too Many Requests '' @ [0x2014] @ js '' '' @ replicate 400 0x78"
    by (simp add: error_response_def decimal.simps js_def)
  with run show ?thesis by simp
qed

subsection \<open>C10: no schema validation\<close>



section \<open>Properties of the credential vault\<close>

subsection \<open>Base64 round trip\<close>

lemma chunk_loop_eq: "chunk_loop u8 idx result = result @ fromCharCode (drop idx u8)"
proof (induction u8 idx result rule: chunk_loop.induct)
  case (1 u8 idx result)
  show ?case
  proof (cases "idx < length u8")
    case True
    have "drop idx u8 = take CHUNK (drop idx u8) @ drop (idx + CHUNK) u8"
      by (metis append_take_drop_id drop_drop add.commute)
    moreover have "subarray u8 idx (min (idx + CHUNK) (length u8)) = take CHUNK (drop idx u8)"
      by (auto simp: subarray_def min_def)
    ultimately show ?thesis
      using 1 True by (subst chunk_loop.simps) (simp add: fromCharCode_def flip: map_append)
  next
    case False
    then show ?thesis by (subst chunk_loop.simps) (simp add: fromCharCode_def)
  qed
qed

lemma chunk_loop_all: "chunk_loop u8 0 [] = fromCharCode u8"
  by (simp add: chunk_loop_eq)

lemma unat_byte_less: "unat (b :: byte) < 256"
  using unsigned_less [of b, where ?'a = nat] by simp

lemma unat_ucast_byte: "unat (ucast (b :: byte) :: code_unit) = unat b"
proof -
  have "unat b < 2 ^ 16" using unat_byte_less [of b] by simp
  then show ?thesis by (simp add: unsigned_ucast_eq take_bit_nat_eq_self)
qed

lemma fromCharCode_small: "c \<in> set (fromCharCode u8) \<Longrightarrow> \<not> 0xFF < c"
proof -
  assume "c \<in> set (fromCharCode u8)"
  then obtain b :: byte where "c = ucast b" by (auto simp: fromCharCode_def)
  then show ?thesis
    using unat_byte_less [of b] by (simp add: word_less_nat_alt unat_ucast_byte)
qed

lemma ucast_ucast_byte: "ucast (ucast (b :: byte) :: code_unit) = b"
  by (rule ucast_up_ucast_id) (simp add: is_up)

lemma base64Encode_eq: "base64Encode u8 = Inr (b64_encode u8)"
proof -
  have "\<not> (\<exists>c \<in> set (fromCharCode u8). 0xFF < c)"
    using fromCharCode_small by blast
  moreover have "map ucast (fromCharCode u8) = u8"
    by (simp add: fromCharCode_def ucast_ucast_byte comp_def)
  ultimately show ?thesis
    by (simp add: base64Encode_def chunk_loop_all btoa_def)
qed

lemma b64_table: "\<forall>n \<in> set [0..<64]. b64val (b64char n) = Some n \<and> \<not> is_ascii_ws (b64char n) \<and> b64char n \<noteq> 0x3D"
  by code_simp

lemma b64val_b64char: "n < 64 \<Longrightarrow> b64val (b64char n) = Some n"
  using b64_table by simp

lemma b64char_not_ws: "n < 64 \<Longrightarrow> \<not> is_ascii_ws (b64char n)"
  using b64_table by simp

lemma b64char_not_pad: "n < 64 \<Longrightarrow> b64char n \<noteq> 0x3D"
  using b64_table by simp

lemma sextets_bound: "n \<in> set (sextets bs) \<Longrightarrow> n < 64"
proof (induction bs arbitrary: n rule: sextets.induct)
  case (1 a b c rest)
  have "unat a < 256" "unat b < 256" "unat c < 256"
    by (rule unat_byte_less)+
  with 1 show ?case by auto
next
  case (2 a b)
  have "unat a < 256" "unat b < 256"
    by (rule unat_byte_less)+
  with 2 show ?case by auto
next
  case (3 a)
  have "unat a < 256" by (rule unat_byte_less)
  with 3 show ?case by auto
qed simp

lemma unsextets_sextets: "unsextets (sextets bs) = bs"
proof (induction bs rule: sextets.induct)
  case (1 a b c rest)
  have bnd: "unat a < 256" "unat b < 256" "unat c < 256"
    by (rule unat_byte_less)+
  have "unat a div 4 * 4 + (unat a mod 4 * 16 + unat b div 16) div 16 = unat a"
    using bnd by simp
  moreover have "(unat a mod 4 * 16 + unat b div 16) mod 16 * 16 + (unat b mod 16 * 4 + unat c div 64) div 4 = unat b"
    using bnd by (simp; presburger)
  moreover have "(unat b mod 16 * 4 + unat c div 64) mod 4 * 64 + unat c mod 64 = unat c"
    using bnd by (simp; presburger)
  ultimately show ?case using 1 by simp
next
  case (2 a b)
  have bnd: "unat a < 256" "unat b < 256"
    by (rule unat_byte_less)+
  have "unat a div 4 * 4 + (unat a mod 4 * 16 + unat b div 16) div 16 = unat a"
    using bnd by simp
  moreover have "(unat a mod 4 * 16 + unat b div 16) mod 16 * 16 + (unat b mod 16 * 4) div 4 = unat b"
    using bnd by (simp; presburger)
  ultimately show ?case by simp
next
  case (3 a)
  have "unat a div 4 * 4 + (unat a mod 4 * 16) div 16 = unat a"
    by simp
  then show ?case by simp
qed simp

lemma those_vals_chars: "(\<forall>n \<in> set ns. n < 64) \<Longrightarrow> those_vals (map b64char ns) = Some ns"
  by (induction ns) (simp_all add: b64val_b64char)

lemma length_sextets: "length (sextets bs) = (length bs div 3) * 4 + (if length bs mod 3 = 0 then 0 else length bs mod 3 + 1)"
  by (induction bs rule: sextets.induct) auto

lemma sextet_chars_no_pad: "c \<in> set (map b64char (sextets bs)) \<Longrightarrow> c \<noteq> 0x3D"
  using b64char_not_pad sextets_bound by auto

lemma strip_padding_encode: "strip_padding (b64_encode bs) = map b64char (sextets bs)"
proof -
  let ?cs = "map b64char (sextets bs)"
  have len: "length ?cs = (length bs div 3) * 4 + (if length bs mod 3 = 0 then 0 else length bs mod 3 + 1)"
    by (simp add: length_sextets)
  have nopad: "xs \<noteq> [] \<Longrightarrow> xs = ?cs \<Longrightarrow> last xs \<noteq> 0x3D" for xs
    using sextet_chars_no_pad [of "last xs" bs] last_in_set [of xs] by blast
  consider "length bs mod 3 = 0" | "length bs mod 3 = 1" | "length bs mod 3 = 2"
    by linarith
  then show ?thesis
  proof cases
    case 1
    then have e: "b64_encode bs = ?cs" by (simp add: b64_encode_def)
    show ?thesis
    proof (cases "?cs = []")
      case True
      then show ?thesis unfolding e by (simp add: strip_padding_def)
    next
      case False
      then obtain ys y where ys: "?cs = ys @ [y]" by (metis rev_exhaust)
      with nopad [of ?cs] False have y: "y \<noteq> 0x3D" by simp
      show ?thesis unfolding e ys using y
        by (cases ys rule: rev_cases) (auto simp: strip_padding_def)
    qed
  next
    case 2
    then have e: "b64_encode bs = ?cs @ [0x3D, 0x3D]"
      by (simp add: b64_encode_def numeral_2_eq_2)
    have "length (?cs @ [0x3D, 0x3D]) mod 4 = 0"
      using len 2 by simp
    then show ?thesis unfolding e by (simp add: strip_padding_def)
  next
    case 3
    then have e: "b64_encode bs = ?cs @ [0x3D]"
      by (simp add: b64_encode_def)
    have l4: "length (?cs @ [0x3D]) mod 4 = 0"
      using len 3 by simp
    have "?cs \<noteq> []" using len 3 by auto
    then obtain ys y where ys: "?cs = ys @ [y]" by (metis rev_exhaust)
    with nopad [of ?cs] \<open>?cs \<noteq> []\<close> have y: "y \<noteq> 0x3D" by simp
    show ?thesis using l4 y unfolding e ys
      by (simp add: strip_padding_def)
  qed
qed

lemma filter_ws_encode: "filter (\<lambda>c. \<not> is_ascii_ws c) (b64_encode bs) = b64_encode bs"
proof -
  have "\<not> is_ascii_ws c" if "c \<in> set (b64_encode bs)" for c
    using that b64char_not_ws sextets_bound
    by (auto simp: b64_encode_def is_ascii_ws_def)
  then show ?thesis by (simp add: filter_id_conv)
qed

lemma atob_b64_encode: "atob (b64_encode bs) = Inr (fromCharCode bs)"
proof -
  have "length (map b64char (sextets bs)) mod 4 \<noteq> 1"
    by (simp add: length_sextets; presburger)
  moreover have "those_vals (map b64char (sextets bs)) = Some (sextets bs)"
    using sextets_bound by (intro those_vals_chars) blast
  ultimately show ?thesis
    by (simp add: atob_def filter_ws_encode strip_padding_encode unsextets_sextets fromCharCode_def
        del: length_map)
qed

lemma base64_roundtrip:
  "base64Encode u8 = Inr b64 \<Longrightarrow> base64Decode b64 = Inr u8"
  by (auto simp: base64Encode_eq base64Decode_def atob_b64_encode fromCharCode_def
      ucast_ucast_byte comp_def)

lemma base64Decode_encode: "base64Decode (b64_encode bs) = Inr bs"
  using base64_roundtrip [of bs "b64_encode bs"] by (simp add: base64Encode_eq)

subsection \<open>UTF-8 round trip\<close>

lemma unat_of_nat_byte: "n < 256 \<Longrightarrow> unat (of_nat n :: byte) = n"
  by (simp add: unat_of_nat)

lemma unat_unit_less: "unat (c :: code_unit) < 65536"
  using unsigned_less [of c, where ?'a = nat] by simp

lemma surrogate_nat:
  "is_high_surrogate c \<longleftrightarrow> 0xD800 \<le> unat c \<and> unat c \<le> 0xDBFF"
  "is_low_surrogate c \<longleftrightarrow> 0xDC00 \<le> unat c \<and> unat c \<le> 0xDFFF"
  by (simp_all add: is_high_surrogate_def is_low_surrogate_def word_le_nat_alt)

lemma lone_scalar: "is_scalar (lone c)"
  using unat_unit_less [of c] by (auto simp: lone_def is_scalar_def surrogate_nat)

lemma pair_scalar:
  "is_high_surrogate c \<Longrightarrow> is_low_surrogate d \<Longrightarrow>
   is_scalar (0x10000 + (unat c - 0xD800) * 0x400 + (unat d - 0xDC00))"
  by (auto simp: is_scalar_def surrogate_nat)

lemma to_scalars_scalar: "cp \<in> set (to_scalars s) \<Longrightarrow> is_scalar cp"
  by (induction s arbitrary: cp rule: to_scalars.induct)
     (auto simp: lone_scalar pair_scalar split: if_splits)

lemma from_scalar_lone:
  "\<not> is_high_surrogate c \<Longrightarrow> \<not> is_low_surrogate c \<Longrightarrow> from_scalar (lone c) = [c]"
  using unat_unit_less [of c] by (simp add: lone_def from_scalar_def)

lemma from_scalar_pair:
  assumes "is_high_surrogate c" and "is_low_surrogate d"
  shows "from_scalar (0x10000 + (unat c - 0xD800) * 0x400 + (unat d - 0xDC00)) = [c, d]"
proof -
  from assms have c: "0xD800 \<le> unat c" "unat c \<le> 0xDBFF" and d: "0xDC00 \<le> unat d" "unat d \<le> 0xDFFF"
    by (simp_all add: surrogate_nat)
  define k where "k = unat c - 0xD800"
  define x where "x = unat d - 0xDC00"
  have x: "x < 0x400" using d by (simp add: x_def)
  have "(k * 0x400 + x) div 0x400 = k" "(k * 0x400 + x) mod 0x400 = x"
    using x by simp_all
  moreover have "0xD800 + k = unat c" "0xDC00 + x = unat d"
    using c d by (simp_all add: k_def x_def)
  ultimately have "from_scalar (0x10000 + k * 0x400 + x) = [c, d]"
    by (simp add: from_scalar_def)
  then show ?thesis by (simp add: k_def x_def)
qed

lemma from_to_scalars: "well_formed s \<Longrightarrow> concat (map from_scalar (to_scalars s)) = s"
proof (induction s rule: to_scalars.induct)
  case 1
  then show ?case by simp
next
  case (2 c)
  then show ?case by (simp add: from_scalar_lone)
next
  case (3 c d rest)
  show ?case
  proof (cases "is_high_surrogate c")
    case True
    with 3 show ?thesis by (simp add: from_scalar_pair)
  next
    case False
    with 3 show ?thesis by (simp add: from_scalar_lone)
  qed
qed

lemma decoder_init_fields [simp]:
  "code_point decoder_init = 0" "bytes_seen decoder_init = 0" "bytes_needed decoder_init = 0"
  "lower_boundary decoder_init = 0x80" "upper_boundary decoder_init = 0xBF"
  by (simp_all add: decoder_init_def)

lemma lead1: "b \<le> 0x7F \<Longrightarrow> lead_byte b = ([b], decoder_init)"
  by (simp add: lead_byte_def)

lemma lead2:
  "0xC2 \<le> b \<Longrightarrow> b \<le> 0xDF \<Longrightarrow>
   lead_byte b = ([], decoder_init\<lparr>bytes_needed := 1, code_point := b - 0xC0\<rparr>)"
  by (simp add: lead_byte_def)

lemma lead3:
  "0xE0 \<le> b \<Longrightarrow> b \<le> 0xEF \<Longrightarrow>
   lead_byte b = ([], decoder_init\<lparr>bytes_needed := 2, code_point := b - 0xE0,
              lower_boundary := (if b = 0xE0 then 0xA0 else 0x80),
              upper_boundary := (if b = 0xED then 0x9F else 0xBF)\<rparr>)"
  by (simp add: lead_byte_def)

lemma lead4:
  "0xF0 \<le> b \<Longrightarrow> b \<le> 0xF4 \<Longrightarrow>
   lead_byte b = ([], decoder_init\<lparr>bytes_needed := 3, code_point := b - 0xF0,
              lower_boundary := (if b = 0xF0 then 0x90 else 0x80),
              upper_boundary := (if b = 0xF4 then 0x8F else 0xBF)\<rparr>)"
  by (simp add: lead_byte_def)

lemma cont_last:
  "bytes_needed st = Suc (bytes_seen st) \<Longrightarrow> lower_boundary st \<le> b \<Longrightarrow> b \<le> upper_boundary st \<Longrightarrow>
   decoder_step st b = ([code_point st * 0x40 + (b - 0x80)], decoder_init)"
  by (simp add: decoder_step_def Let_def)

lemma cont_more:
  "bytes_needed st \<noteq> 0 \<Longrightarrow> bytes_needed st \<noteq> Suc (bytes_seen st) \<Longrightarrow>
   lower_boundary st \<le> b \<Longrightarrow> b \<le> upper_boundary st \<Longrightarrow>
   decoder_step st b =
     ([], st\<lparr>code_point := code_point st * 0x40 + (b - 0x80), bytes_seen := Suc (bytes_seen st),
             lower_boundary := 0x80, upper_boundary := 0xBF\<rparr>)"
  by (simp add: decoder_step_def Let_def)

lemma init_step: "decoder_step decoder_init b = lead_byte b"
  by (simp add: decoder_step_def)

lemma decode1:
  assumes "b1 \<le> 0x7F"
  shows "decoder_run decoder_init (of_nat b1 # rest) = b1 # decoder_run decoder_init rest"
proof -
  have "b1 < 256" using assms by simp
  then show ?thesis using assms by (simp add: unat_of_nat_byte init_step lead1)
qed

lemma decode2:
  assumes "0xC2 \<le> b1" "b1 \<le> 0xDF" "0x80 \<le> b2" "b2 \<le> 0xBF"
  shows "decoder_run decoder_init (of_nat b1 # of_nat b2 # rest) =
    ((b1 - 0xC0) * 0x40 + (b2 - 0x80)) # decoder_run decoder_init rest"
proof -
  define st1 where "st1 = decoder_init\<lparr>bytes_needed := 1, code_point := b1 - 0xC0\<rparr>"
  have lt: "b1 < 256" "b2 < 256" using assms by simp_all
  have s1: "decoder_step decoder_init b1 = ([], st1)"
    using assms by (simp add: init_step lead2 st1_def)
  have s2: "decoder_step st1 b2 = ([code_point st1 * 0x40 + (b2 - 0x80)], decoder_init)"
    by (rule cont_last) (use assms in \<open>simp_all add: st1_def\<close>)
  have cp: "code_point st1 = b1 - 0xC0" by (simp add: st1_def)
  show ?thesis
    by (simp add: unat_of_nat_byte lt s1 s2 cp)
qed

lemma decode3:
  assumes "0xE0 \<le> b1" "b1 \<le> 0xEF" "0x80 \<le> b2" "b2 \<le> 0xBF" "0x80 \<le> b3" "b3 \<le> 0xBF"
    and lo: "b1 = 0xE0 \<Longrightarrow> 0xA0 \<le> b2" and hi: "b1 = 0xED \<Longrightarrow> b2 \<le> 0x9F"
  shows "decoder_run decoder_init (of_nat b1 # of_nat b2 # of_nat b3 # rest) =
    (((b1 - 0xE0) * 0x40 + (b2 - 0x80)) * 0x40 + (b3 - 0x80)) # decoder_run decoder_init rest"
proof -
  define st1 where "st1 = decoder_init\<lparr>bytes_needed := 2, code_point := b1 - 0xE0,
              lower_boundary := (if b1 = 0xE0 then 0xA0 else 0x80),
              upper_boundary := (if b1 = 0xED then 0x9F else 0xBF)\<rparr>"
  define st2 where "st2 = st1\<lparr>code_point := code_point st1 * 0x40 + (b2 - 0x80),
             bytes_seen := Suc (bytes_seen st1), lower_boundary := 0x80, upper_boundary := 0xBF\<rparr>"
  have lt: "b1 < 256" "b2 < 256" "b3 < 256" using assms by simp_all
  have s1: "decoder_step decoder_init b1 = ([], st1)"
    using assms(1,2) by (simp add: init_step lead3 st1_def)
  have f1: "bytes_needed st1 = 2" "bytes_seen st1 = 0" "code_point st1 = b1 - 0xE0"
    "lower_boundary st1 \<le> b2" "b2 \<le> upper_boundary st1"
    using assms(3,4) lo hi by (simp_all add: st1_def)
  have s2: "decoder_step st1 b2 = ([], st2)"
    unfolding st2_def by (rule cont_more) (use f1 in simp_all)
  have f2: "bytes_needed st2 = Suc (bytes_seen st2)" "lower_boundary st2 \<le> b3" "b3 \<le> upper_boundary st2"
    "code_point st2 = (b1 - 0xE0) * 0x40 + (b2 - 0x80)"
    using assms(5,6) f1 by (simp_all add: st2_def)
  have s3: "decoder_step st2 b3 = ([code_point st2 * 0x40 + (b3 - 0x80)], decoder_init)"
    by (rule cont_last) (use f2 in simp_all)
  show ?thesis
    by (simp add: unat_of_nat_byte lt s1 s2 s3 f2(4))
qed

lemma decode4:
  assumes "0xF0 \<le> b1" "b1 \<le> 0xF4" "0x80 \<le> b2" "b2 \<le> 0xBF" "0x80 \<le> b3" "b3 \<le> 0xBF"
    "0x80 \<le> b4" "b4 \<le> 0xBF"
    and lo: "b1 = 0xF0 \<Longrightarrow> 0x90 \<le> b2" and hi: "b1 = 0xF4 \<Longrightarrow> b2 \<le> 0x8F"
  shows "decoder_run decoder_init (of_nat b1 # of_nat b2 # of_nat b3 # of_nat b4 # rest) =
    ((((b1 - 0xF0) * 0x40 + (b2 - 0x80)) * 0x40 + (b3 - 0x80)) * 0x40 + (b4 - 0x80))
      # decoder_run decoder_init rest"
proof -
  define st1 where "st1 = decoder_init\<lparr>bytes_needed := 3, code_point := b1 - 0xF0,
              lower_boundary := (if b1 = 0xF0 then 0x90 else 0x80),
              upper_boundary := (if b1 = 0xF4 then 0x8F else 0xBF)\<rparr>"
  define st2 where "st2 = st1\<lparr>code_point := code_point st1 * 0x40 + (b2 - 0x80),
             bytes_seen := Suc (bytes_seen st1), lower_boundary := 0x80, upper_boundary := 0xBF\<rparr>"
  define st3 where "st3 = st2\<lparr>code_point := code_point st2 * 0x40 + (b3 - 0x80),
             bytes_seen := Suc (bytes_seen st2), lower_boundary := 0x80, upper_boundary := 0xBF\<rparr>"
  have lt: "b1 < 256" "b2 < 256" "b3 < 256" "b4 < 256" using assms by simp_all
  have s1: "decoder_step decoder_init b1 = ([], st1)"
    using assms(1,2) by (simp add: init_step lead4 st1_def)
  have f1: "bytes_needed st1 = 3" "bytes_seen st1 = 0" "code_point st1 = b1 - 0xF0"
    "lower_boundary st1 \<le> b2" "b2 \<le> upper_boundary st1"
    using assms(3,4) lo hi by (simp_all add: st1_def)
  have s2: "decoder_step st1 b2 = ([], st2)"
    unfolding st2_def by (rule cont_more) (use f1 in simp_all)
  have f2: "bytes_needed st2 = 3" "bytes_seen st2 = 1" "lower_boundary st2 \<le> b3" "b3 \<le> upper_boundary st2"
    "code_point st2 = (b1 - 0xF0) * 0x40 + (b2 - 0x80)"
    using assms(5,6) f1 by (simp_all add: st2_def)
  have s3: "decoder_step st2 b3 = ([], st3)"
    unfolding st3_def by (rule cont_more) (use f2 in simp_all)
  have f3: "bytes_needed st3 = Suc (bytes_seen st3)" "lower_boundary st3 \<le> b4" "b4 \<le> upper_boundary st3"
    "code_point st3 = ((b1 - 0xF0) * 0x40 + (b2 - 0x80)) * 0x40 + (b3 - 0x80)"
    using assms(7,8) f2 by (simp_all add: st3_def)
  have s4: "decoder_step st3 b4 = ([code_point st3 * 0x40 + (b4 - 0x80)], decoder_init)"
    by (rule cont_last) (use f3 in simp_all)
  show ?thesis
    by (simp add: unat_of_nat_byte lt s1 s2 s3 s4 f3(4))
qed

lemma split2:
  fixes cp :: nat
  obtains a c where "cp = 0x40 * a + c" "c < 0x40" "cp div 0x40 = a" "cp mod 0x40 = c"
proof
  show "cp = 0x40 * (cp div 0x40) + cp mod 0x40" by simp
  show "cp mod 0x40 < 0x40" by simp
qed simp_all

lemma split3:
  fixes cp :: nat
  obtains a b c where "cp = 0x1000 * a + 0x40 * b + c" "b < 0x40" "c < 0x40"
    "cp div 0x1000 = a" "cp div 0x40 mod 0x40 = b" "cp mod 0x40 = c"
proof
  have "cp div 0x1000 = cp div 0x40 div 0x40"
    by (simp add: div_mult2_eq)
  then have "cp div 0x40 = 0x40 * (cp div 0x1000) + cp div 0x40 mod 0x40"
    by simp
  moreover have "cp = 0x40 * (cp div 0x40) + cp mod 0x40" by simp
  ultimately show "cp = 0x1000 * (cp div 0x1000) + 0x40 * (cp div 0x40 mod 0x40) + cp mod 0x40"
    by linarith
  show "cp div 0x40 mod 0x40 < 0x40" "cp mod 0x40 < 0x40" by simp_all
qed simp_all

lemma split4:
  fixes cp :: nat
  obtains a b c d where "cp = 0x40000 * a + 0x1000 * b + 0x40 * c + d" "b < 0x40" "c < 0x40" "d < 0x40"
    "cp div 0x40000 = a" "cp div 0x1000 mod 0x40 = b" "cp div 0x40 mod 0x40 = c" "cp mod 0x40 = d"
proof
  obtain a' b' c' where s3: "cp = 0x1000 * a' + 0x40 * b' + c'" "b' < 0x40" "c' < 0x40"
    "cp div 0x1000 = a'" "cp div 0x40 mod 0x40 = b'" "cp mod 0x40 = c'"
    by (rule split3)
  have "cp div 0x40000 = cp div 0x1000 div 0x40"
    by (simp add: div_mult2_eq)
  then have "cp div 0x1000 = 0x40 * (cp div 0x40000) + cp div 0x1000 mod 0x40"
    by simp
  with s3 show "cp = 0x40000 * (cp div 0x40000) + 0x1000 * (cp div 0x1000 mod 0x40)
      + 0x40 * (cp div 0x40 mod 0x40) + cp mod 0x40"
    by linarith
  show "cp div 0x1000 mod 0x40 < 0x40" "cp div 0x40 mod 0x40 < 0x40" "cp mod 0x40 < 0x40"
    by simp_all
qed simp_all

lemma decode_scalar:
  assumes "is_scalar cp"
  shows "decoder_run decoder_init (utf8_bytes cp @ rest) = cp # decoder_run decoder_init rest"
proof -
  consider "cp < 0x80" | "0x80 \<le> cp" "cp < 0x800" | "0x800 \<le> cp" "cp < 0x10000"
    | "0x10000 \<le> cp" "cp < 0x110000"
    using assms unfolding is_scalar_def by atomize_elim linarith
  then show ?thesis
  proof cases
    case 1
    then show ?thesis
      using decode1 [of cp rest] by (simp add: utf8_bytes_def)
  next
    case 2
    obtain a c where s: "cp = 0x40 * a + c" "c < 0x40" "cp div 0x40 = a" "cp mod 0x40 = c"
      by (rule split2)
    have u: "utf8_bytes cp = [of_nat (0xC0 + a), of_nat (0x80 + c)]"
      using 2 s by (simp add: utf8_bytes_def)
    have "0xC2 \<le> 0xC0 + a" "0xC0 + a \<le> 0xDF" "0x80 \<le> 0x80 + c" "0x80 + c \<le> 0xBF"
      using 2 s(1,2) by linarith+
    from decode2 [OF this, of rest] s(1) show ?thesis
      unfolding u by simp
  next
    case 3
    obtain a b c where s: "cp = 0x1000 * a + 0x40 * b + c" "b < 0x40" "c < 0x40"
      "cp div 0x1000 = a" "cp div 0x40 mod 0x40 = b" "cp mod 0x40 = c"
      by (rule split3)
    have ns: "\<not> (0xD800 \<le> cp \<and> cp \<le> 0xDFFF)"
      using assms by (simp add: is_scalar_def)
    have u: "utf8_bytes cp = [of_nat (0xE0 + a), of_nat (0x80 + b), of_nat (0x80 + c)]"
      using 3 s by (simp add: utf8_bytes_def)
    have "0xE0 \<le> 0xE0 + a" "0xE0 + a \<le> 0xEF" "0x80 \<le> 0x80 + b" "0x80 + b \<le> 0xBF"
      "0x80 \<le> 0x80 + c" "0x80 + c \<le> 0xBF"
      "0xE0 + a = 0xE0 \<Longrightarrow> 0xA0 \<le> 0x80 + b" "0xE0 + a = 0xED \<Longrightarrow> 0x80 + b \<le> 0x9F"
      using 3 ns s(1,2,3) by linarith+
    from decode3 [OF this, of rest] s(1) show ?thesis
      unfolding u by simp
  next
    case 4
    obtain a b c d where s: "cp = 0x40000 * a + 0x1000 * b + 0x40 * c + d" "b < 0x40" "c < 0x40" "d < 0x40"
      "cp div 0x40000 = a" "cp div 0x1000 mod 0x40 = b" "cp div 0x40 mod 0x40 = c" "cp mod 0x40 = d"
      by (rule split4)
    have u: "utf8_bytes cp = [of_nat (0xF0 + a), of_nat (0x80 + b), of_nat (0x80 + c), of_nat (0x80 + d)]"
      using 4 s by (simp add: utf8_bytes_def)
    have "0xF0 \<le> 0xF0 + a" "0xF0 + a \<le> 0xF4" "0x80 \<le> 0x80 + b" "0x80 + b \<le> 0xBF"
      "0x80 \<le> 0x80 + c" "0x80 + c \<le> 0xBF" "0x80 \<le> 0x80 + d" "0x80 + d \<le> 0xBF"
      "0xF0 + a = 0xF0 \<Longrightarrow> 0x90 \<le> 0x80 + b" "0xF0 + a = 0xF4 \<Longrightarrow> 0x80 + b \<le> 0x8F"
      using 4 s(1,2,3,4) by linarith+
    from decode4 [OF this, of rest] s(1) show ?thesis
      unfolding u by simp
  qed
qed

lemma decode_scalars:
  "(\<forall>cp \<in> set cps. is_scalar cp) \<Longrightarrow>
   decoder_run decoder_init (concat (map utf8_bytes cps)) = cps"
  by (induction cps) (simp_all add: decode_scalar)

lemma of_nat_byte_eq: "n < 256 \<Longrightarrow> m < 256 \<Longrightarrow> (of_nat n :: byte) = of_nat m \<longleftrightarrow> n = m"
  by (metis unat_of_nat_byte)

lemma first_three_bytes:
  assumes "is_scalar cp" and "take 3 (utf8_bytes cp @ rest) = [0xEF, 0xBB, 0xBF]"
  shows "cp = 0xFEFF"
proof -
  have lit: "(0xEF :: byte) = of_nat 0xEF" "(0xBB :: byte) = of_nat 0xBB" "(0xBF :: byte) = of_nat 0xBF"
    by simp_all
  consider "cp < 0x80" | "0x80 \<le> cp" "cp < 0x800" | "0x800 \<le> cp" "cp < 0x10000"
    | "0x10000 \<le> cp" "cp < 0x110000"
    using assms(1) unfolding is_scalar_def by atomize_elim linarith
  then show ?thesis
  proof cases
    case 1
    with assms(2) have "(of_nat cp :: byte) = of_nat 0xEF"
      by (simp add: utf8_bytes_def)
    with 1 show ?thesis using of_nat_byte_eq [of cp "0xEF"] by simp
  next
    case 2
    obtain a c where s: "cp = 0x40 * a + c" "c < 0x40" "cp div 0x40 = a" "cp mod 0x40 = c"
      by (rule split2)
    from assms(2) 2 s have "(of_nat (0xC0 + a) :: byte) = of_nat 0xEF"
      by (simp add: utf8_bytes_def)
    moreover have "0xC0 + a < 256" using 2 s(1,2) by linarith
    ultimately have "0xC0 + a = 0xEF" using of_nat_byte_eq [of "0xC0 + a" "0xEF"] by simp
    with 2 s(1,2) show ?thesis by linarith
  next
    case 3
    obtain a b c where s: "cp = 0x1000 * a + 0x40 * b + c" "b < 0x40" "c < 0x40"
      "cp div 0x1000 = a" "cp div 0x40 mod 0x40 = b" "cp mod 0x40 = c"
      by (rule split3)
    from assms(2) 3 s have e: "(of_nat (0xE0 + a) :: byte) = of_nat 0xEF"
      "(of_nat (0x80 + b) :: byte) = of_nat 0xBB" "(of_nat (0x80 + c) :: byte) = of_nat 0xBF"
      by (simp_all add: utf8_bytes_def)
    have lt: "0xE0 + a < 256" "0x80 + b < 256" "0x80 + c < 256"
      using 3 s(1,2,3) by linarith+
    have "0xE0 + a = 0xEF" "0x80 + b = 0xBB" "0x80 + c = 0xBF"
      using e lt of_nat_byte_eq [of "0xE0 + a" "0xEF"] of_nat_byte_eq [of "0x80 + b" "0xBB"]
        of_nat_byte_eq [of "0x80 + c" "0xBF"] by simp_all
    with s(1) show ?thesis by linarith
  next
    case 4
    obtain a b c d where s: "cp = 0x40000 * a + 0x1000 * b + 0x40 * c + d" "b < 0x40" "c < 0x40" "d < 0x40"
      "cp div 0x40000 = a" "cp div 0x1000 mod 0x40 = b" "cp div 0x40 mod 0x40 = c" "cp mod 0x40 = d"
      by (rule split4)
    from assms(2) 4 s have "(of_nat (0xF0 + a) :: byte) = of_nat 0xEF"
      by (simp add: utf8_bytes_def)
    moreover have "0xF0 + a < 256" using 4 s(1,2,3,4) by linarith
    ultimately have "0xF0 + a = 0xEF" using of_nat_byte_eq [of "0xF0 + a" "0xEF"] by simp
    then show ?thesis by linarith
  qed
qed

lemma lone_bom: "lone c = 0xFEFF \<Longrightarrow> c = 0xFEFF"
proof -
  assume "lone c = 0xFEFF"
  then have "unat c = 0xFEFF" by (simp add: lone_def split: if_splits)
  then have "of_nat (unat c) = (of_nat 0xFEFF :: code_unit)" by simp
  then show ?thesis by simp
qed

lemma first_scalar_bom:
  assumes "to_scalars s = cp # cps" and "cp = 0xFEFF"
  shows "\<exists>rest. s = 0xFEFF # rest"
proof (cases s rule: to_scalars.cases)
  case 1
  with assms show ?thesis by simp
next
  case (2 c)
  with assms lone_bom [of c] show ?thesis by simp
next
  case (3 c d rest)
  show ?thesis
  proof (cases "is_high_surrogate c \<and> is_low_surrogate d")
    case True
    with 3 assms have "0x10000 + (unat c - 0xD800) * 0x400 + (unat d - 0xDC00) = 0xFEFF" by simp
    then show ?thesis by linarith
  next
    case False
    with 3 assms lone_bom [of c] show ?thesis by auto
  qed
qed

lemma strip_bom_encode:
  assumes "\<not> (\<exists>rest. s = 0xFEFF # rest)"
  shows "strip_bom (TextEncoder_encode s) = TextEncoder_encode s"
proof (cases "to_scalars s")
  case Nil
  then show ?thesis by (simp add: TextEncoder_encode_def strip_bom_def)
next
  case (Cons cp cps)
  have "is_scalar cp" using Cons to_scalars_scalar [of cp s] by simp
  moreover have "cp \<noteq> 0xFEFF" using first_scalar_bom [OF Cons] assms by blast
  ultimately have "take 3 (utf8_bytes cp @ concat (map utf8_bytes cps)) \<noteq> [0xEF, 0xBB, 0xBF]"
    using first_three_bytes by blast
  then show ?thesis by (simp add: TextEncoder_encode_def strip_bom_def Cons)
qed

lemma decode_encode:
  "\<not> (\<exists>rest. s = 0xFEFF # rest) \<Longrightarrow>
   TextDecoder_decode (TextEncoder_encode s) = concat (map from_scalar (to_scalars s))"
  using to_scalars_scalar [of _ s]
  by (simp add: TextDecoder_decode_def strip_bom_encode) (simp add: TextEncoder_encode_def decode_scalars)

lemma utf8_roundtrip:
  "well_formed s \<Longrightarrow> \<not> (\<exists>rest. s = 0xFEFF # rest) \<Longrightarrow>
   TextDecoder_decode (TextEncoder_encode s) = s"
  by (simp add: decode_encode from_to_scalars)

lemma bom_dropped:
  assumes "well_formed P"
  shows "TextDecoder_decode (TextEncoder_encode (0xFEFF # P)) = P"
proof -
  have nh: "\<not> is_high_surrogate 0xFEFF" "\<not> is_low_surrogate 0xFEFF"
    by (simp_all add: is_high_surrogate_def is_low_surrogate_def)
  then have sc: "to_scalars (0xFEFF # P) = 0xFEFF # to_scalars P"
    by (cases P) (simp_all add: lone_def)
  have "utf8_bytes 0xFEFF = [0xEF, 0xBB, 0xBF]"
    by (simp add: utf8_bytes_def)
  then have "strip_bom (TextEncoder_encode (0xFEFF # P)) = TextEncoder_encode P"
    by (simp add: TextEncoder_encode_def sc strip_bom_def)
  then show ?thesis
    using to_scalars_scalar [of _ P] assms
    by (simp add: TextDecoder_decode_def) (simp add: TextEncoder_encode_def decode_scalars from_to_scalars)
qed

subsection \<open>The stand-in cipher meets the contract\<close>

lemma toy_fields:
  "importKey toy_crypto f d a e u = Inr d"
  "deriveKey toy_crypto p pk dv e u = Inr (pk @ kdf_salt p)"
  "encrypt toy_crypto gp k pt = Inr (key_tag k @ pt)"
  "decrypt toy_crypto gp k ct =
     (if take (length (key_tag k)) ct = key_tag k then Inr (drop (length (key_tag k)) ct)
      else Inl (DOMException (js ''OperationError'')))"
  "random_byte toy_crypto g = (of_nat g, Suc g)"
  by (simp_all add: toy_crypto_def)

lemma toy_aead_correct: "aead_correct toy_crypto"
  unfolding aead_correct_def toy_fields by simp

lemma key_tag_prefix:
  "take (length (key_tag k')) (key_tag k @ pt) = key_tag k' \<Longrightarrow> k' = k"
proof (induction k' arbitrary: k)
  case Nil
  then show ?case by (cases k) simp_all
next
  case (Cons b' k'')
  show ?case
  proof (cases k)
    case Nil
    with Cons.prems show ?thesis by simp
  next
    case (Cons b k0)
    with Cons.prems have "b = b'" and "take (length (key_tag k'')) (key_tag k0 @ pt) = key_tag k''"
      by simp_all
    with Cons.IH [of k0] Cons show ?thesis by simp
  qed
qed

lemma getRandomValues_length: "getRandomValues gen n g = (bs, g') \<Longrightarrow> length bs = n"
  by (induction n arbitrary: g bs g') (auto split: prod.splits)

lemma encryptApiKey_Inr:
  fixes cr :: "('pk, 'k, 'g) crypto" and g g' :: 'g
  assumes "encryptApiKey cr P Q g = (Inr c, g')"
  obtains salt_bytes iv_bytes and g1 :: 'g and key cipher where
    "getRandomValues (random_byte cr) 16 g = (salt_bytes, g1)"
    "getRandomValues (random_byte cr) 12 g1 = (iv_bytes, g')"
    "deriveKeyFromPassphrase cr Q salt_bytes = Inr key"
    "encrypt cr \<lparr>gcm_name = js ''AES-GCM'', gcm_iv = iv_bytes\<rparr> key (TextEncoder_encode P) = Inr cipher"
    "c = \<lparr>ciphertext = b64_encode cipher, iv = b64_encode iv_bytes, salt = b64_encode salt_bytes\<rparr>"
  using assms
  by (auto simp: encryptApiKey_def bindE_def base64Encode_eq split: prod.splits sum.splits)

lemma toy_encrypt_succeeds: "\<exists>c g'. encryptApiKey toy_crypto P Q g = (Inr c, g')"
  by (simp add: encryptApiKey_def deriveKeyFromPassphrase_def toy_fields bindE_def
      base64Encode_eq split: prod.splits)

subsection \<open>C1: decrypting what was encrypted\<close>

text \<open>
  With a cipher that decrypts what it encrypted, \<open>decryptApiKey\<close> under the passphrase
  of the encryption returns the plaintext as \<open>TextDecoder\<close> reads the bytes
  \<open>TextEncoder\<close> wrote.
\<close>

lemma decrypt_encrypt:
  assumes "aead_correct cr" and "encryptApiKey cr P Q g = (Inr c, g')"
  shows "decryptApiKey cr c Q = Inr (TextDecoder_decode (TextEncoder_encode P))"
proof -
  from assms(2) obtain salt_bytes iv_bytes g1 key cipher where
    k: "deriveKeyFromPassphrase cr Q salt_bytes = Inr key"
    and e: "encrypt cr \<lparr>gcm_name = js ''AES-GCM'', gcm_iv = iv_bytes\<rparr> key (TextEncoder_encode P) = Inr cipher"
    and c: "c = \<lparr>ciphertext = b64_encode cipher, iv = b64_encode iv_bytes, salt = b64_encode salt_bytes\<rparr>"
    by (rule encryptApiKey_Inr)
  from assms(1) e have "decrypt cr \<lparr>gcm_name = js ''AES-GCM'', gcm_iv = iv_bytes\<rparr> key cipher = Inr (TextEncoder_encode P)"
    unfolding aead_correct_def by blast
  with k show ?thesis
    by (simp add: decryptApiKey_def c base64Decode_encode bindE_def)
qed

text \<open>
  A plaintext that begins with \<open>U+FEFF\<close> comes back without it, with every cipher that
  decrypts what it encrypted: the decoder removes the byte order mark.
\<close>

lemma bom_lost:
  assumes "aead_correct cr" and "encryptApiKey cr (0xFEFF # P) Q g = (Inr c, g')" and "well_formed P"
  shows "decryptApiKey cr c Q = Inr P"
  using decrypt_encrypt [OF assms(1,2)] bom_dropped [OF assms(3)] by simp

text \<open>
  Claim C1 says that the result is the plaintext \<open>P\<close> for every \<open>P\<close>.  It is not when
  \<open>P\<close> begins with \<open>U+FEFF\<close>: the result is \<open>P\<close> without its first code unit.
\<close>

theorem decrypt_encrypt_bom_counterexample:
  "\<exists>c g'. encryptApiKey toy_crypto (0xFEFF # js ''AIza-Key_09'') (js ''correct horse'') 0 = (Inr c, g') \<and>
     decryptApiKey toy_crypto c (js ''correct horse'') = Inr (js ''AIza-Key_09'') \<and>
     decryptApiKey toy_crypto c (js ''correct horse'') \<noteq> Inr (0xFEFF # js ''AIza-Key_09'')"
proof -
  obtain c g' where e: "encryptApiKey toy_crypto (0xFEFF # js ''AIza-Key_09'') (js ''correct horse'') 0 = (Inr c, g')"
    using toy_encrypt_succeeds by blast
  have wf: "well_formed (js ''AIza-Key_09'')"
    by (simp add: js_def is_high_surrogate_def is_low_surrogate_def)
  have "decryptApiKey toy_crypto c (js ''correct horse'') = Inr (js ''AIza-Key_09'')"
    using decrypt_encrypt [OF toy_aead_correct e] bom_dropped [OF wf] by simp
  with e show ?thesis by auto
qed

text \<open>
  Claim C1, amended.  With a cipher that decrypts what it encrypted, for every passphrase
  \<open>Q\<close> and every plaintext \<open>P\<close>, decrypting the result of encrypting \<open>P\<close> under \<open>Q\<close>
  with \<open>Q\<close> returns \<open>TextDecoder.decode(TextEncoder.encode(P))\<close>; this is \<open>P\<close>
  whenever \<open>P\<close> is well formed (no unpaired surrogate) and does not begin with
  \<open>U+FEFF\<close>.
\<close>

theorem decrypt_encrypt_roundtrip:
  assumes "aead_correct cr" and "encryptApiKey cr P Q g = (Inr c, g')"
  shows "decryptApiKey cr c Q = Inr (TextDecoder_decode (TextEncoder_encode P)) \<and>
    (well_formed P \<and> \<not> (\<exists>rest. P = 0xFEFF # rest) \<longrightarrow> decryptApiKey cr c Q = Inr P)"
  using decrypt_encrypt [OF assms] by (simp add: utf8_roundtrip)

theorem decrypt_encrypt_roundtrip_witness:
  "\<exists>c g'. encryptApiKey toy_crypto (js ''AIza-Key_09'') (js ''correct horse'') 0 = (Inr c, g') \<and>
     decryptApiKey toy_crypto c (js ''correct horse'') = Inr (js ''AIza-Key_09'')"
proof -
  obtain c g' where e: "encryptApiKey toy_crypto (js ''AIza-Key_09'') (js ''correct horse'') 0 = (Inr c, g')"
    using toy_encrypt_succeeds by blast
  have wf: "well_formed (js ''AIza-Key_09'') \<and> \<not> (\<exists>rest. js ''AIza-Key_09'' = 0xFEFF # rest)"
    by (simp add: js_def is_high_surrogate_def is_low_surrogate_def)
  from decrypt_encrypt_roundtrip [OF toy_aead_correct e] wf e show ?thesis by blast
qed

subsection \<open>C2: a wrong passphrase\<close>

text \<open>
  The passphrase enters the key derivation through \<open>TextEncoder\<close> only, so two
  passphrases with the same UTF-8 encoding cannot be told apart.
\<close>

lemma same_encoding_same_result:
  "TextEncoder_encode Q' = TextEncoder_encode Q \<Longrightarrow> decryptApiKey cr c Q' = decryptApiKey cr c Q"
  by (simp add: decryptApiKey_def deriveKeyFromPassphrase_def)

text \<open>
  Claim C2 says that decryption fails for every passphrase \<open>Q'\<close> other than \<open>Q\<close>.  It
  does not for the one-unit strings \<open>U+D800\<close> (an unpaired surrogate) and \<open>U+FFFD\<close>:
  both are encoded as \<open>EF BF BD\<close>, and decryption with one returns the plaintext
  encrypted with the other.
\<close>

theorem wrong_passphrase_same_encoding_counterexample:
  "[0xFFFD] \<noteq> [0xD800 :: code_unit] \<and>
   (\<exists>c g'. encryptApiKey toy_crypto (js ''AIza-Key_09'') [0xD800] 0 = (Inr c, g') \<and>
      decryptApiKey toy_crypto c [0xFFFD] = Inr (js ''AIza-Key_09''))"
proof -
  obtain c g' where e: "encryptApiKey toy_crypto (js ''AIza-Key_09'') [0xD800] 0 = (Inr c, g')"
    using toy_encrypt_succeeds by blast
  have wf: "well_formed (js ''AIza-Key_09'') \<and> \<not> (\<exists>rest. js ''AIza-Key_09'' = 0xFEFF # rest)"
    by (simp add: js_def is_high_surrogate_def is_low_surrogate_def)
  have same: "TextEncoder_encode [0xFFFD] = TextEncoder_encode [0xD800]"
    by (simp add: TextEncoder_encode_def lone_def is_high_surrogate_def is_low_surrogate_def)
  have "decryptApiKey toy_crypto c [0xD800] = Inr (js ''AIza-Key_09'')"
    using decrypt_encrypt [OF toy_aead_correct e] wf by (simp add: utf8_roundtrip)
  then have "decryptApiKey toy_crypto c [0xFFFD] = Inr (js ''AIza-Key_09'')"
    by (simp only: same_encoding_same_result [OF same])
  with e show ?thesis by auto
qed

text \<open>
  Once the three stored fields are decoded, \<open>decryptApiKey\<close> is one key derivation and
  one call of the cipher, and the rejection of either is the result.
\<close>

lemma decryptApiKey_stored:
  fixes cr :: "('pk, 'k, 'g) crypto"
  assumes "base64Decode (salt c) = Inr s" and "base64Decode (iv c) = Inr n"
    and "base64Decode (ciphertext c) = Inr ct"
  shows "decryptApiKey cr c Q' =
     bindE (deriveKeyFromPassphrase cr Q' s)
       (\<lambda>key. bindE (decrypt cr \<lparr>gcm_name = js ''AES-GCM'', gcm_iv = n\<rparr> key ct)
          (\<lambda>plainBuffer. Inr (TextDecoder_decode plainBuffer)))"
  using assms by (simp add: decryptApiKey_def bindE_def)

text \<open>
  Claim C2, amended.  Let \<open>c\<close> be the result of encrypting \<open>P\<close> under \<open>Q\<close>: its
  fields decode to the salt \<open>s\<close>, the nonce \<open>n\<close> and the ciphertext \<open>ct\<close> of \<open>P\<close>
  under the key derived from \<open>Q\<close> and \<open>s\<close>.  Decrypting \<open>c\<close> with a passphrase
  \<open>Q'\<close> derives a key from \<open>Q'\<close> and \<open>s\<close> and calls the cipher once with \<open>n\<close> and
  \<open>ct\<close>.  When the derivation or that call is rejected, \<open>decryptApiKey\<close> fails with
  the same rejection, unchanged.  It returns a plaintext only when the cipher accepted
  \<open>ct\<close> under that key, and then what the cipher returned, decoded.  A passphrase
  \<open>Q'\<close> with the UTF-8 encoding of \<open>Q\<close> gives the result of \<open>Q\<close>, which is the
  plaintext as decoded when the cipher decrypts what it encrypted.
\<close>

theorem wrong_passphrase_rejected:
  fixes cr :: "('pk, 'k, 'g) crypto"
  assumes "encryptApiKey cr P Q g = (Inr c, g')"
  shows "\<exists>s n ct k.
     base64Decode (salt c) = Inr s \<and> base64Decode (iv c) = Inr n \<and>
     base64Decode (ciphertext c) = Inr ct \<and>
     deriveKeyFromPassphrase cr Q s = Inr k \<and>
     encrypt cr \<lparr>gcm_name = js ''AES-GCM'', gcm_iv = n\<rparr> k (TextEncoder_encode P) = Inr ct \<and>
     (\<forall>e. deriveKeyFromPassphrase cr Q' s = Inl e \<longrightarrow> decryptApiKey cr c Q' = Inl e) \<and>
     (\<forall>k' e. deriveKeyFromPassphrase cr Q' s = Inr k' \<and>
          decrypt cr \<lparr>gcm_name = js ''AES-GCM'', gcm_iv = n\<rparr> k' ct = Inl e \<longrightarrow>
          decryptApiKey cr c Q' = Inl e) \<and>
     (\<forall>x. decryptApiKey cr c Q' = Inr x \<longrightarrow>
        (\<exists>k' pt. deriveKeyFromPassphrase cr Q' s = Inr k' \<and>
           decrypt cr \<lparr>gcm_name = js ''AES-GCM'', gcm_iv = n\<rparr> k' ct = Inr pt \<and>
           x = TextDecoder_decode pt)) \<and>
     (TextEncoder_encode Q' = TextEncoder_encode Q \<longrightarrow>
        decryptApiKey cr c Q' = decryptApiKey cr c Q) \<and>
     (aead_correct cr \<and> TextEncoder_encode Q' = TextEncoder_encode Q \<longrightarrow>
        decryptApiKey cr c Q' = Inr (TextDecoder_decode (TextEncoder_encode P)))"
proof -
  from assms obtain salt_bytes iv_bytes g1 key cipher where
    k: "deriveKeyFromPassphrase cr Q salt_bytes = Inr key"
    and e: "encrypt cr \<lparr>gcm_name = js ''AES-GCM'', gcm_iv = iv_bytes\<rparr> key (TextEncoder_encode P) = Inr cipher"
    and c: "c = \<lparr>ciphertext = b64_encode cipher, iv = b64_encode iv_bytes, salt = b64_encode salt_bytes\<rparr>"
    by (rule encryptApiKey_Inr)
  have s: "base64Decode (salt c) = Inr salt_bytes" and n: "base64Decode (iv c) = Inr iv_bytes"
    and ct: "base64Decode (ciphertext c) = Inr cipher"
    by (simp_all add: c base64Decode_encode)
  note d = decryptApiKey_stored [OF s n ct, of cr Q']
  have derive_fails: "decryptApiKey cr c Q' = Inl e"
    if "deriveKeyFromPassphrase cr Q' salt_bytes = Inl e" for e
    using that by (simp add: d bindE_def)
  have decrypt_fails: "decryptApiKey cr c Q' = Inl e"
    if "deriveKeyFromPassphrase cr Q' salt_bytes = Inr k'"
      "decrypt cr \<lparr>gcm_name = js ''AES-GCM'', gcm_iv = iv_bytes\<rparr> k' cipher = Inl e" for k' e
    using that by (simp add: d bindE_def)
  have only_decrypted: "\<exists>k' pt. deriveKeyFromPassphrase cr Q' salt_bytes = Inr k' \<and>
      decrypt cr \<lparr>gcm_name = js ''AES-GCM'', gcm_iv = iv_bytes\<rparr> k' cipher = Inr pt \<and>
      x = TextDecoder_decode pt"
    if "decryptApiKey cr c Q' = Inr x" for x
    using that by (auto simp: d bindE_def split: sum.splits)
  have same: "decryptApiKey cr c Q' = decryptApiKey cr c Q"
    if "TextEncoder_encode Q' = TextEncoder_encode Q"
    using that by (rule same_encoding_same_result)
  have same_ok: "decryptApiKey cr c Q' = Inr (TextDecoder_decode (TextEncoder_encode P))"
    if "aead_correct cr" "TextEncoder_encode Q' = TextEncoder_encode Q"
    using decrypt_encrypt [OF that(1) assms] same [OF that(2)] by simp
  from s n ct k e derive_fails decrypt_fails only_decrypted same same_ok show ?thesis
    by blast
qed

theorem wrong_passphrase_rejected_witness:
  "\<exists>c g'. encryptApiKey toy_crypto (js ''AIza-Key_09'') (js ''correct horse'') 0 = (Inr c, g') \<and>
     decryptApiKey toy_crypto c (js ''Tr0ub4dor'') = Inl (DOMException (js ''OperationError'')) \<and>
     decryptApiKey toy_crypto c (js ''correct horse'') = Inr (js ''AIza-Key_09'')"
proof -
  obtain c g' where e: "encryptApiKey toy_crypto (js ''AIza-Key_09'') (js ''correct horse'') 0 = (Inr c, g')"
    using toy_encrypt_succeeds by blast
  from wrong_passphrase_rejected [OF e, of "js ''Tr0ub4dor''"] obtain s n ct k where
    k: "deriveKeyFromPassphrase toy_crypto (js ''correct horse'') s = Inr k"
    and ct: "encrypt toy_crypto \<lparr>gcm_name = js ''AES-GCM'', gcm_iv = n\<rparr> k
        (TextEncoder_encode (js ''AIza-Key_09'')) = Inr ct"
    and rej: "\<And>k' e. deriveKeyFromPassphrase toy_crypto (js ''Tr0ub4dor'') s = Inr k' \<Longrightarrow>
        decrypt toy_crypto \<lparr>gcm_name = js ''AES-GCM'', gcm_iv = n\<rparr> k' ct = Inl e \<Longrightarrow>
        decryptApiKey toy_crypto c (js ''Tr0ub4dor'') = Inl e"
    by blast
  have enc: "TextEncoder_encode (js ''Tr0ub4dor'') \<noteq> TextEncoder_encode (js ''correct horse'')"
    by (simp add: TextEncoder_encode_def js_def lone_def is_high_surrogate_def is_low_surrogate_def
        utf8_bytes_def)
  have k': "deriveKeyFromPassphrase toy_crypto (js ''Tr0ub4dor'') s =
      Inr (TextEncoder_encode (js ''Tr0ub4dor'') @ s)"
    by (simp add: deriveKeyFromPassphrase_def toy_fields bindE_def)
  from k have kv: "k = TextEncoder_encode (js ''correct horse'') @ s"
    by (simp add: deriveKeyFromPassphrase_def toy_fields bindE_def)
  from ct have ctv: "ct = key_tag k @ TextEncoder_encode (js ''AIza-Key_09'')"
    by (simp add: toy_fields)
  from enc kv have "TextEncoder_encode (js ''Tr0ub4dor'') @ s \<noteq> k"
    by simp
  then have "take (length (key_tag (TextEncoder_encode (js ''Tr0ub4dor'') @ s))) ct \<noteq>
      key_tag (TextEncoder_encode (js ''Tr0ub4dor'') @ s)"
    unfolding ctv using key_tag_prefix by blast
  then have "decrypt toy_crypto \<lparr>gcm_name = js ''AES-GCM'', gcm_iv = n\<rparr>
      (TextEncoder_encode (js ''Tr0ub4dor'') @ s) ct = Inl (DOMException (js ''OperationError''))"
    by (simp add: toy_fields)
  from rej [OF k' this]
  have wrong: "decryptApiKey toy_crypto c (js ''Tr0ub4dor'') = Inl (DOMException (js ''OperationError''))" .
  have wf: "well_formed (js ''AIza-Key_09'') \<and> \<not> (\<exists>rest. js ''AIza-Key_09'' = 0xFEFF # rest)"
    by (simp add: js_def is_high_surrogate_def is_low_surrogate_def)
  from wrong_passphrase_rejected [OF e, of "js ''correct horse''"] toy_aead_correct
  have "decryptApiKey toy_crypto c (js ''correct horse'') =
      Inr (TextDecoder_decode (TextEncoder_encode (js ''AIza-Key_09'')))"
    by blast
  with wf have right: "decryptApiKey toy_crypto c (js ''correct horse'') = Inr (js ''AIza-Key_09'')"
    by (simp add: utf8_roundtrip)
  from e wrong right show ?thesis by blast
qed

subsection \<open>C9: the parameters of an encryption\<close>

text \<open>
  Claim C9.  Every call of \<open>encryptApiKey\<close> draws 16 bytes of salt and then 12 bytes of
  nonce from the generator, and leaves the generator after these 28 bytes, so the next
  call draws new ones.  When the call succeeds, the key was imported from the UTF-8
  bytes of the passphrase and derived with PBKDF2, that salt, 200000 iterations and
  SHA-256 as a 256-bit AES-GCM key, the plaintext was encrypted with AES-GCM under that
  key and that nonce, and the stored object holds the Base64 text of salt, nonce and
  ciphertext.
\<close>

theorem encryptApiKey_parameters:
  fixes cr :: "('pk, 'k, 'g) crypto" and g g' :: 'g
  assumes "encryptApiKey cr P Q g = (r, g')"
  shows "\<exists>salt_bytes iv_bytes g1.
    getRandomValues (random_byte cr) 16 g = (salt_bytes, g1) \<and>
    getRandomValues (random_byte cr) 12 g1 = (iv_bytes, g') \<and>
    length salt_bytes = 16 \<and> length iv_bytes = 12 \<and>
    (\<forall>c. r = Inr c \<longrightarrow>
       (\<exists>passKey key cipher.
          importKey cr (js ''raw'') (TextEncoder_encode Q) (js ''PBKDF2'') False [js ''deriveKey'']
            = Inr passKey \<and>
          deriveKey cr
            \<lparr>kdf_name = js ''PBKDF2'', kdf_salt = salt_bytes, kdf_iterations = 200000,
             kdf_hash = js ''SHA-256''\<rparr>
            passKey \<lparr>key_alg_name = js ''AES-GCM'', key_length = 256\<rparr> False
            [js ''encrypt'', js ''decrypt''] = Inr key \<and>
          encrypt cr \<lparr>gcm_name = js ''AES-GCM'', gcm_iv = iv_bytes\<rparr> key (TextEncoder_encode P)
            = Inr cipher \<and>
          base64Decode (salt c) = Inr salt_bytes \<and>
          base64Decode (iv c) = Inr iv_bytes \<and>
          base64Decode (ciphertext c) = Inr cipher))"
proof -
  obtain salt_bytes g1 where r1: "getRandomValues (random_byte cr) 16 g = (salt_bytes, g1)"
    by (cases "getRandomValues (random_byte cr) 16 g")
  obtain iv_bytes g2 where r2: "getRandomValues (random_byte cr) 12 g1 = (iv_bytes, g2)"
    by (cases "getRandomValues (random_byte cr) 12 g1")
  from assms r1 r2 have g2: "g2 = g'" by (simp add: encryptApiKey_def)
  have len: "length salt_bytes = 16" "length iv_bytes = 12"
    using getRandomValues_length [OF r1] getRandomValues_length [OF r2] by simp_all
  have calls: "\<exists>passKey key cipher.
          importKey cr (js ''raw'') (TextEncoder_encode Q) (js ''PBKDF2'') False [js ''deriveKey'']
            = Inr passKey \<and>
          deriveKey cr
            \<lparr>kdf_name = js ''PBKDF2'', kdf_salt = salt_bytes, kdf_iterations = 200000,
             kdf_hash = js ''SHA-256''\<rparr>
            passKey \<lparr>key_alg_name = js ''AES-GCM'', key_length = 256\<rparr> False
            [js ''encrypt'', js ''decrypt''] = Inr key \<and>
          encrypt cr \<lparr>gcm_name = js ''AES-GCM'', gcm_iv = iv_bytes\<rparr> key (TextEncoder_encode P)
            = Inr cipher \<and>
          base64Decode (salt c) = Inr salt_bytes \<and>
          base64Decode (iv c) = Inr iv_bytes \<and>
          base64Decode (ciphertext c) = Inr cipher" if "r = Inr c" for c
    using assms that r1 r2
    by (auto simp: encryptApiKey_def deriveKeyFromPassphrase_def bindE_def base64Encode_eq
        base64Decode_encode split: sum.splits)
  from r1 r2 g2 len calls show ?thesis by blast
qed

theorem encryptApiKey_parameters_witness:
  "\<exists>c g'. encryptApiKey toy_crypto (js ''AIza-Key_09'') (js ''correct horse'') 0 = (Inr c, g') \<and>
     (\<exists>s i. base64Decode (salt c) = Inr s \<and> length s = 16 \<and>
            base64Decode (iv c) = Inr i \<and> length i = 12)"
proof -
  obtain c g' where e: "encryptApiKey toy_crypto (js ''AIza-Key_09'') (js ''correct horse'') 0 = (Inr c, g')"
    using toy_encrypt_succeeds by blast
  from encryptApiKey_parameters [OF e] e show ?thesis by blast
qed

end
